theory Spec2Isabelle
  imports Complex_Main
begin

section \<open>Data model\<close>

text \<open>
  The controller of \<^verbatim>\<open>src/ralph-loop-agent.ts\<close> passes most of its configuration through
  to the text-generation engine without looking at it.  Such values (the model handle, the
  tool set, telemetry and provider options, ...) are kept as opaque tokens.
\<close>

type_synonym opaque = string

subsection \<open>Conversation messages\<close>

datatype role = System | User | Assistant | Tool

datatype content_part = TextPart string | OtherPart opaque

text \<open>The content of a message is a plain string or an array of parts.\<close>

datatype content = StringContent string | PartsContent "content_part list"

record ModelMessage =
  role :: role
  content :: content

subsection \<open>Engine results, verification results, errors\<close>

text \<open>
  \<^verbatim>\<open>GenerateTextResult\<close>: the controller reads \<^verbatim>\<open>result.text\<close> and
  \<^verbatim>\<open>result.response.messages\<close>; the rest is metadata.
\<close>

record GenerateTextResult =
  result_text :: string
  response_messages :: "ModelMessage list"
  result_metadata :: opaque

datatype StreamTextResult = StreamHandle nat

text \<open>\<^verbatim>\<open>VerifyCompletionResult = { complete: boolean, reason?: string }\<close>\<close>

record VerifyCompletionResult =
  complete :: bool
  vc_reason :: "string option"

text \<open>
  \<^verbatim>\<open>TypeError\<close> is what JavaScript raises when a property of \<^verbatim>\<open>undefined\<close> is read;
  \<^verbatim>\<open>Thrown\<close> is an exception raised by a collaborator (engine, callback, predicate).
\<close>

datatype error = TypeError | Thrown string

datatype completion_reason = Verified | MaxIterations | Aborted

subsection \<open>Arguments of an engine call\<close>

datatype StopCondition = StepCountIs nat | OtherStopCondition opaque

type_synonym AbortSignal = nat

text \<open>
  The object literal handed to \<^verbatim>\<open>generateText\<close> / \<^verbatim>\<open>streamText\<close>.  A key that is absent from
  the literal, or whose value is \<^verbatim>\<open>undefined\<close>, is \<open>None\<close>.  The fields carry the prefix
  \<open>p_\<close> because the settings record below uses the same names.
\<close>

record call_params =
  p_model :: opaque
  p_messages :: "ModelMessage list"
  p_tools :: "opaque option"
  p_toolChoice :: "opaque option"
  p_stopWhen :: "StopCondition option"
  p_maxOutputTokens :: "int option"
  p_temperature :: "real option"
  p_topP :: "real option"
  p_topK :: "int option"
  p_presencePenalty :: "real option"
  p_frequencyPenalty :: "real option"
  p_stopSequences :: "string list option"
  p_seed :: "int option"
  p_experimental_telemetry :: "opaque option"
  p_activeTools :: "opaque option"
  p_prepareStep :: "opaque option"
  p_experimental_repairToolCall :: "opaque option"
  p_providerOptions :: "opaque option"
  p_experimental_context :: "opaque option"
  p_abortSignal :: "AbortSignal option"

subsection \<open>The outside world\<close>

text \<open>
  Everything outside the controller (the engine, the clock, the abort signal, the caller's
  callbacks) acts on a world state \<open>'w\<close>, threaded through every call.  A call either returns
  a value or throws; in both cases it leaves a new world behind.
\<close>

type_synonym ('a, 'w) effect = "'w \<Rightarrow> (error + 'a) \<times> 'w"

text \<open>
  What the model takes for granted:
  \<^item> an awaited call that is made returns or throws (a promise that never settles is not
    modelled);
  \<^item> the iteration count of the stop condition is an integer (it may be zero or negative);
  \<^item> the callbacks and the predicate act on the world only: \<^verbatim>\<open>verifyCompletion\<close> is handed
    the array \<^verbatim>\<open>allResults\<close> itself, and a predicate that writes to it is outside the model;
  \<^item> the abort signal is read from the world when \<^verbatim>\<open>abortSignal?.aborted\<close> is evaluated, so
    it may become set at any call in between.
\<close>

record 'w environment =
  generateText :: "call_params \<Rightarrow> (GenerateTextResult, 'w) effect"
  streamText :: "call_params \<Rightarrow> (StreamTextResult, 'w) effect"
  aborted :: "AbortSignal \<Rightarrow> 'w \<Rightarrow> bool"
  now :: "'w \<Rightarrow> int"

subsection \<open>Agent settings\<close>

text \<open>The argument of \<^verbatim>\<open>verifyCompletion\<close>.\<close>

record VerifyCompletionContext =
  ctx_result :: GenerateTextResult
  ctx_iteration :: int
  ctx_allResults :: "GenerateTextResult list"
  ctx_originalPrompt :: string

datatype instructions =
    InstructionString string
  | InstructionMessage ModelMessage
  | InstructionMessages "ModelMessage list"

text \<open>\<^verbatim>\<open>IterationStopCondition = { type: 'iteration-count', count }\<close>, or some other stop condition.\<close>

datatype stop_when = IterationStopCondition int | OtherStopWhen opaque

text \<open>
  \<^verbatim>\<open>RalphLoopAgentSettings\<close> is declared in \<^verbatim>\<open>./ralph-loop-agent-settings\<close>; the record has the
  fields that \<^verbatim>\<open>ralph-loop-agent.ts\<close> reads from \<^verbatim>\<open>this.settings\<close>.  An optional field that is
  not set is \<open>None\<close>.
\<close>

record 'w RalphLoopAgentSettings =
  id' :: "string option"
  model :: opaque
  instructions :: "instructions option"
  tools :: "opaque option"
  toolChoice :: "opaque option"
  stopWhen :: "stop_when option"
  toolStopWhen :: "StopCondition option"
  maxOutputTokens :: "int option"
  temperature :: "real option"
  topP :: "real option"
  topK :: "int option"
  presencePenalty :: "real option"
  frequencyPenalty :: "real option"
  stopSequences :: "string list option"
  seed :: "int option"
  experimental_telemetry :: "opaque option"
  activeTools :: "opaque option"
  prepareStep :: "opaque option"
  experimental_repairToolCall :: "opaque option"
  providerOptions :: "opaque option"
  experimental_context :: "opaque option"
  onIterationStart :: "(int \<Rightarrow> (unit, 'w) effect) option"
  onIterationEnd :: "(int \<Rightarrow> int \<Rightarrow> GenerateTextResult \<Rightarrow> (unit, 'w) effect) option"
  verifyCompletion :: "(VerifyCompletionContext \<Rightarrow> (VerifyCompletionResult, 'w) effect) option"

subsection \<open>The result of \<^verbatim>\<open>loop()\<close>\<close>

text \<open>\<^verbatim>\<open>RalphLoopAgentResult\<close>; the fields carry the prefix \<open>res_\<close>.\<close>

record RalphLoopAgentResult =
  res_text :: string
  res_iterations :: int
  res_completionReason :: completion_reason
  res_reason :: "string option"
  res_result :: GenerateTextResult
  res_allResults :: "GenerateTextResult list"

subsection \<open>Call log\<close>

text \<open>
  To speak about "the engine calls an invocation makes", every call to the engine and every
  answer of the verification predicate is written to a log, in order.  An engine call is
  logged with the value of \<^verbatim>\<open>iteration\<close> and of \<^verbatim>\<open>currentMessages\<close> at the moment its
  argument was built, with the argument itself, and with what the engine answered.
\<close>

record engine_call =
  at_iteration :: int
  conversation :: "ModelMessage list"
  params :: call_params

text \<open>
  The two \<^verbatim>\<open>streamText\<close> call sites of \<^verbatim>\<open>stream()\<close>: inside the loop after a successful
  verification, and after the loop for the final iteration.
\<close>

datatype stream_site = EarlyCompletion | FinalIteration

datatype event =
    GenerateTextCall engine_call "error + GenerateTextResult"
  | VerifyCompletionCall int VerifyCompletionResult
  | StreamTextCall stream_site engine_call "error + StreamTextResult"

subsection \<open>Local variables of an invocation\<close>

text \<open>
  The locals shared by \<^verbatim>\<open>loop()\<close> and \<^verbatim>\<open>stream()\<close>, together with the log and the world.
  \<^verbatim>\<open>loop()\<close> has two more locals.
\<close>

record 'w invocation =
  allResults :: "GenerateTextResult list"
  currentMessages :: "ModelMessage list"
  iteration :: int
  trace :: "event list"
  world :: 'w

record 'w loop_locals = "'w invocation" +
  completionReason :: completion_reason
  reason :: "string option"

text \<open>How a pass through a loop body ends.\<close>

datatype control = Next | Break | Return StreamTextResult | Throw error

datatype 'a outcome = Returned 'a | Threw error

section \<open>The agent\<close>

subsection \<open>Getters and message construction\<close>

definition maxIterations :: "('w, 'z) RalphLoopAgentSettings_scheme \<Rightarrow> int" where
  "maxIterations S =
     (case stopWhen S of
        Some (IterationStopCondition count) \<Rightarrow> count
      | _ \<Rightarrow> 10)"

text \<open>\<^verbatim>\<open>buildSystemMessages\<close>: the empty string is falsy, so it yields no message.\<close>

definition buildSystemMessages :: "('w, 'z) RalphLoopAgentSettings_scheme \<Rightarrow> ModelMessage list" where
  "buildSystemMessages S =
     (case instructions S of
        None \<Rightarrow> []
      | Some (InstructionString text) \<Rightarrow>
          (if text = [] then [] else [\<lparr>role = System, content = StringContent text\<rparr>])
      | Some (InstructionMessages ms) \<Rightarrow> ms
      | Some (InstructionMessage m) \<Rightarrow> [m])"

definition initialUserMessage :: "string \<Rightarrow> ModelMessage" where
  "initialUserMessage prompt = \<lparr>role = User, content = PartsContent [TextPart prompt]\<rparr>"

definition continuationMessage :: ModelMessage where
  "continuationMessage =
     \<lparr>role = User,
      content = PartsContent
        [TextPart ''Continue working on the task. The previous attempt was not complete.'']\<rparr>"

definition feedbackMessage :: "string \<Rightarrow> ModelMessage" where
  "feedbackMessage r = \<lparr>role = User, content = PartsContent [TextPart (''Feedback: '' @ r)]\<rparr>"

text \<open>
  The message list of an iteration (lines 176-193, 307-323 and 387-403): the spread of the
  three arrays, then a \<^verbatim>\<open>push\<close> when \<^verbatim>\<open>iteration > 1\<close>.
\<close>

definition iterationMessages ::
  "ModelMessage list \<Rightarrow> ModelMessage \<Rightarrow> ModelMessage list \<Rightarrow> int \<Rightarrow> ModelMessage list" where
  "iterationMessages systemMessages initial current i =
     (let messages = systemMessages @ initial # current
      in if i > 1 then messages @ [continuationMessage] else messages)"

text \<open>The argument of every \<^verbatim>\<open>generateText\<close> call and of the final \<^verbatim>\<open>streamText\<close> call.\<close>

definition fullParams ::
  "('w, 'z) RalphLoopAgentSettings_scheme \<Rightarrow> ModelMessage list \<Rightarrow> AbortSignal option \<Rightarrow> call_params" where
  "fullParams S msgs abortSignal =
     \<lparr>p_model = model S,
      p_messages = msgs,
      p_tools = tools S,
      p_toolChoice = toolChoice S,
      p_stopWhen = Some (case toolStopWhen S of None \<Rightarrow> StepCountIs 20 | Some c \<Rightarrow> c),
      p_maxOutputTokens = maxOutputTokens S,
      p_temperature = temperature S,
      p_topP = topP S,
      p_topK = topK S,
      p_presencePenalty = presencePenalty S,
      p_frequencyPenalty = frequencyPenalty S,
      p_stopSequences = stopSequences S,
      p_seed = seed S,
      p_experimental_telemetry = experimental_telemetry S,
      p_activeTools = activeTools S,
      p_prepareStep = prepareStep S,
      p_experimental_repairToolCall = experimental_repairToolCall S,
      p_providerOptions = providerOptions S,
      p_experimental_context = experimental_context S,
      p_abortSignal = abortSignal\<rparr>"

text \<open>The argument of the \<^verbatim>\<open>streamText\<close> call at lines 364-373.\<close>

definition earlyParams ::
  "('w, 'z) RalphLoopAgentSettings_scheme \<Rightarrow> ModelMessage list \<Rightarrow> AbortSignal option \<Rightarrow> call_params" where
  "earlyParams S msgs abortSignal =
     \<lparr>p_model = model S,
      p_messages = msgs,
      p_tools = tools S,
      p_toolChoice = toolChoice S,
      p_stopWhen = Some (case toolStopWhen S of None \<Rightarrow> StepCountIs 20 | Some c \<Rightarrow> c),
      p_maxOutputTokens = maxOutputTokens S,
      p_temperature = temperature S,
      p_topP = None,
      p_topK = None,
      p_presencePenalty = None,
      p_frequencyPenalty = None,
      p_stopSequences = None,
      p_seed = None,
      p_experimental_telemetry = None,
      p_activeTools = None,
      p_prepareStep = None,
      p_experimental_repairToolCall = None,
      p_providerOptions = None,
      p_experimental_context = None,
      p_abortSignal = abortSignal\<rparr>"

subsection \<open>Optional collaborators\<close>

text \<open>\<^verbatim>\<open>abortSignal?.aborted\<close>\<close>

definition isAborted :: "'w environment \<Rightarrow> AbortSignal option \<Rightarrow> 'w \<Rightarrow> bool" where
  "isAborted env abortSignal w =
     (case abortSignal of None \<Rightarrow> False | Some a \<Rightarrow> aborted env a w)"

text \<open>\<^verbatim>\<open>await this.settings.onIterationStart?.({ iteration })\<close>\<close>

definition callOnIterationStart ::
  "('w, 'z) RalphLoopAgentSettings_scheme \<Rightarrow> int \<Rightarrow> (unit, 'w) effect" where
  "callOnIterationStart S i w =
     (case onIterationStart S of None \<Rightarrow> (Inr (), w) | Some f \<Rightarrow> f i w)"

definition callOnIterationEnd ::
  "('w, 'z) RalphLoopAgentSettings_scheme \<Rightarrow> int \<Rightarrow> int \<Rightarrow> GenerateTextResult \<Rightarrow> (unit, 'w) effect" where
  "callOnIterationEnd S i duration result w =
     (case onIterationEnd S of None \<Rightarrow> (Inr (), w) | Some f \<Rightarrow> f i duration result w)"

text \<open>A JavaScript string is truthy when it is defined and not empty.\<close>

definition truthy :: "string option \<Rightarrow> bool" where
  "truthy r = (case r of None \<Rightarrow> False | Some text \<Rightarrow> text \<noteq> [])"

subsection \<open>One blocking iteration\<close>

text \<open>
  The log entry of an engine call whose argument is built by the rule of an iteration, from
  the current values of \<^verbatim>\<open>iteration\<close> and \<^verbatim>\<open>currentMessages\<close>.
\<close>

definition iterationCall ::
  "('w, 'z) RalphLoopAgentSettings_scheme \<Rightarrow> string \<Rightarrow> AbortSignal option \<Rightarrow>
   ('w, 'm) invocation_scheme \<Rightarrow> engine_call" where
  "iterationCall S prompt abortSignal s =
     \<lparr>at_iteration = iteration s,
      conversation = currentMessages s,
      params = fullParams S
        (iterationMessages (buildSystemMessages S) (initialUserMessage prompt)
           (currentMessages s) (iteration s))
        abortSignal\<rparr>"

text \<open>
  Lines 169-231 of \<^verbatim>\<open>loop()\<close> and lines 302-352 of \<^verbatim>\<open>stream()\<close> are the same statements:
  increment, start callback, message list, \<^verbatim>\<open>generateText\<close>, the two appends, end callback.
  They are embedded once.  An exception leaves the pass at once.
\<close>

definition iterate ::
  "'w environment \<Rightarrow> ('w, 'z) RalphLoopAgentSettings_scheme \<Rightarrow> string \<Rightarrow> AbortSignal option \<Rightarrow>
   ('w, 'm) invocation_scheme \<Rightarrow> ('w, 'm) invocation_scheme \<times> (error + GenerateTextResult)" where
  "iterate env S prompt abortSignal s0 =
     (let s1 = s0\<lparr>iteration := iteration s0 + 1\<rparr>;
          startTime = now env (world s1)
      in case callOnIterationStart S (iteration s1) (world s1) of
           (Inl e, w) \<Rightarrow> (s1\<lparr>world := w\<rparr>, Inl e)
         | (Inr _, w) \<Rightarrow>
             let s2 = s1\<lparr>world := w\<rparr>;
                 call = iterationCall S prompt abortSignal s2
             in case generateText env (params call) (world s2) of
                  (Inl e, w) \<Rightarrow>
                    (s2\<lparr>trace := trace s2 @ [GenerateTextCall call (Inl e)], world := w\<rparr>, Inl e)
                | (Inr result, w) \<Rightarrow>
                    let s3 = s2\<lparr>allResults := allResults s2 @ [result],
                                currentMessages := currentMessages s2 @ response_messages result,
                                trace := trace s2 @ [GenerateTextCall call (Inr result)],
                                world := w\<rparr>;
                        duration = now env (world s3) - startTime
                    in case callOnIterationEnd S (iteration s3) duration result (world s3) of
                         (Inl e, w) \<Rightarrow> (s3\<lparr>world := w\<rparr>, Inl e)
                       | (Inr _, w) \<Rightarrow> (s3\<lparr>world := w\<rparr>, Inr result))"

subsection \<open>\<^verbatim>\<open>loop()\<close>\<close>

text \<open>Lines 234-260: the verification step of \<^verbatim>\<open>loop()\<close>.\<close>

definition loopVerify ::
  "('w, 'z) RalphLoopAgentSettings_scheme \<Rightarrow> string \<Rightarrow> 'w loop_locals \<Rightarrow> GenerateTextResult \<Rightarrow>
   'w loop_locals \<times> control" where
  "loopVerify S prompt s result =
     (case verifyCompletion S of
        None \<Rightarrow> (s, Next)
      | Some verify \<Rightarrow>
          (case verify \<lparr>ctx_result = result, ctx_iteration = iteration s,
                        ctx_allResults = allResults s, ctx_originalPrompt = prompt\<rparr> (world s) of
             (Inl e, w) \<Rightarrow> (s\<lparr>world := w\<rparr>, Throw e)
           | (Inr verification, w) \<Rightarrow>
               let s1 = s\<lparr>trace := trace s @ [VerifyCompletionCall (iteration s) verification],
                          world := w\<rparr>
               in if complete verification
                  then (s1\<lparr>completionReason := Verified, reason := vc_reason verification\<rparr>, Break)
                  else if truthy (vc_reason verification) \<and> \<not> complete verification
                  then (s1\<lparr>currentMessages :=
                             currentMessages s1 @ [feedbackMessage (the (vc_reason verification))]\<rparr>,
                        Next)
                  else (s1, Next)))"

text \<open>Lines 163-260: one pass through the body of the \<^verbatim>\<open>while\<close> loop.\<close>

definition loopBody ::
  "'w environment \<Rightarrow> ('w, 'z) RalphLoopAgentSettings_scheme \<Rightarrow> string \<Rightarrow> AbortSignal option \<Rightarrow>
   'w loop_locals \<Rightarrow> 'w loop_locals \<times> control" where
  "loopBody env S prompt abortSignal s =
     (if isAborted env abortSignal (world s)
      then (s\<lparr>completionReason := Aborted\<rparr>, Break)
      else case iterate env S prompt abortSignal s of
             (s1, Inl e) \<Rightarrow> (s1, Throw e)
           | (s1, Inr result) \<Rightarrow> loopVerify S prompt s1 result)"

text \<open>
  The \<^verbatim>\<open>while (iteration < maxIterations)\<close> loop.  The result says how the loop was left:
  \<open>Break\<close> when it ended (by \<^verbatim>\<open>break\<close> or because the condition became false),
  \<open>Throw\<close> when an exception left it.
\<close>

function loopWhile ::
  "'w environment \<Rightarrow> ('w, 'z) RalphLoopAgentSettings_scheme \<Rightarrow> string \<Rightarrow> AbortSignal option \<Rightarrow>
   'w loop_locals \<Rightarrow> 'w loop_locals \<times> control" where
  "loopWhile env S prompt abortSignal s =
     (if iteration s < maxIterations S
      then case loopBody env S prompt abortSignal s of
             (s', Next) \<Rightarrow> loopWhile env S prompt abortSignal s'
           | (s', c) \<Rightarrow> (s', c)
      else (s, Break))"
  by pat_completeness auto
termination
proof (relation "measure (\<lambda>(env, S, prompt, abortSignal, s). nat (maxIterations S - iteration s))")
  show "wf (measure (\<lambda>(env :: 'w environment, S :: ('w, 'z) RalphLoopAgentSettings_scheme,
      prompt :: string, abortSignal :: AbortSignal option, s :: 'w loop_locals).
      nat (maxIterations S - iteration s)))"
    by simp
next
  fix env :: "'w environment" and S :: "('w, 'z) RalphLoopAgentSettings_scheme"
    and prompt :: string and abortSignal :: "AbortSignal option"
    and s s' :: "'w loop_locals" and c :: control
  assume lt: "iteration s < maxIterations S"
    and body: "(s', c) = loopBody env S prompt abortSignal s" and c: "c = Next"
  from body c have "iteration s' = iteration s + 1"
    unfolding loopBody_def loopVerify_def iterate_def Let_def
    by (auto split: if_splits prod.splits sum.splits option.splits)
  with lt show "((env, S, prompt, abortSignal, s'), (env, S, prompt, abortSignal, s))
      \<in> measure (\<lambda>(env, S, prompt, abortSignal, s). nat (maxIterations S - iteration s))"
    by simp
qed

text \<open>Lines 145-149: the locals at the start of an invocation.\<close>

definition loopInit :: "'w \<Rightarrow> 'w loop_locals" where
  "loopInit w =
     \<lparr>allResults = [], currentMessages = [], iteration = 0, trace = [], world = w,
      completionReason = MaxIterations, reason = None\<rparr>"

text \<open>
  Lines 263-272.  \<^verbatim>\<open>allResults[allResults.length - 1]\<close> is \<^verbatim>\<open>undefined\<close> when the array is
  empty, and reading \<^verbatim>\<open>finalResult.text\<close> then raises a \<^verbatim>\<open>TypeError\<close>.
\<close>

definition loopFinish :: "'w loop_locals \<Rightarrow> RalphLoopAgentResult outcome" where
  "loopFinish s =
     (case allResults s of
        [] \<Rightarrow> Threw TypeError
      | _ # _ \<Rightarrow>
          (let finalResult = last (allResults s)
           in Returned
                \<lparr>res_text = result_text finalResult,
                 res_iterations = iteration s,
                 res_completionReason = completionReason s,
                 res_reason = reason s,
                 res_result = finalResult,
                 res_allResults = allResults s\<rparr>))"

text \<open>
  \<^verbatim>\<open>loop({ prompt, abortSignal })\<close>, started in the world \<open>w\<close>.  Besides what the caller gets
  (a result or an exception) the model gives back the locals at the end, which hold the log.
\<close>

definition loop ::
  "'w environment \<Rightarrow> ('w, 'z) RalphLoopAgentSettings_scheme \<Rightarrow> string \<Rightarrow> AbortSignal option \<Rightarrow>
   'w \<Rightarrow> 'w loop_locals \<times> RalphLoopAgentResult outcome" where
  "loop env S prompt abortSignal w =
     (case loopWhile env S prompt abortSignal (loopInit w) of
        (s, Throw e) \<Rightarrow> (s, Threw e)
      | (s, _) \<Rightarrow> (s, loopFinish s))"

subsection \<open>\<^verbatim>\<open>stream()\<close>\<close>

text \<open>The log entry of the \<^verbatim>\<open>streamText\<close> call at lines 364-373.\<close>

definition earlyCall ::
  "('w, 'z) RalphLoopAgentSettings_scheme \<Rightarrow> string \<Rightarrow> AbortSignal option \<Rightarrow>
   ('w, 'm) invocation_scheme \<Rightarrow> engine_call" where
  "earlyCall S prompt abortSignal s =
     \<lparr>at_iteration = iteration s,
      conversation = currentMessages s,
      params = earlyParams S
        (buildSystemMessages S @ initialUserMessage prompt # currentMessages s) abortSignal\<rparr>"

text \<open>Lines 354-382: the verification step of \<^verbatim>\<open>stream()\<close>.\<close>

definition streamVerify ::
  "'w environment \<Rightarrow> ('w, 'z) RalphLoopAgentSettings_scheme \<Rightarrow> string \<Rightarrow> AbortSignal option \<Rightarrow>
   'w invocation \<Rightarrow> GenerateTextResult \<Rightarrow> 'w invocation \<times> control" where
  "streamVerify env S prompt abortSignal s result =
     (case verifyCompletion S of
        None \<Rightarrow> (s, Next)
      | Some verify \<Rightarrow>
          (case verify \<lparr>ctx_result = result, ctx_iteration = iteration s,
                        ctx_allResults = allResults s, ctx_originalPrompt = prompt\<rparr> (world s) of
             (Inl e, w) \<Rightarrow> (s\<lparr>world := w\<rparr>, Throw e)
           | (Inr verification, w) \<Rightarrow>
               let s1 = s\<lparr>trace := trace s @ [VerifyCompletionCall (iteration s) verification],
                          world := w\<rparr>
               in if complete verification
                  then let call = earlyCall S prompt abortSignal s1
                       in case streamText env (params call) (world s1) of
                            (Inl e, w) \<Rightarrow>
                              (s1\<lparr>trace := trace s1 @ [StreamTextCall EarlyCompletion call (Inl e)],
                                  world := w\<rparr>, Throw e)
                          | (Inr handle, w) \<Rightarrow>
                              (s1\<lparr>trace := trace s1 @ [StreamTextCall EarlyCompletion call (Inr handle)],
                                  world := w\<rparr>, Return handle)
                  else if truthy (vc_reason verification)
                  then (s1\<lparr>currentMessages :=
                             currentMessages s1 @ [feedbackMessage (the (vc_reason verification))]\<rparr>,
                        Next)
                  else (s1, Next)))"

text \<open>Lines 298-382: one pass through the body of the \<^verbatim>\<open>while\<close> loop of \<^verbatim>\<open>stream()\<close>.\<close>

definition streamBody ::
  "'w environment \<Rightarrow> ('w, 'z) RalphLoopAgentSettings_scheme \<Rightarrow> string \<Rightarrow> AbortSignal option \<Rightarrow>
   'w invocation \<Rightarrow> 'w invocation \<times> control" where
  "streamBody env S prompt abortSignal s =
     (if isAborted env abortSignal (world s)
      then (s, Break)
      else case iterate env S prompt abortSignal s of
             (s1, Inl e) \<Rightarrow> (s1, Throw e)
           | (s1, Inr result) \<Rightarrow> streamVerify env S prompt abortSignal s1 result)"

text \<open>
  The \<^verbatim>\<open>while (iteration < maxIterations - 1)\<close> loop: left by \<open>Break\<close> (the loop ended),
  by \<open>Return\<close> (the \<^verbatim>\<open>return streamText(...)\<close> inside it) or by \<open>Throw\<close>.
\<close>

function streamWhile ::
  "'w environment \<Rightarrow> ('w, 'z) RalphLoopAgentSettings_scheme \<Rightarrow> string \<Rightarrow> AbortSignal option \<Rightarrow>
   'w invocation \<Rightarrow> 'w invocation \<times> control" where
  "streamWhile env S prompt abortSignal s =
     (if iteration s < maxIterations S - 1
      then case streamBody env S prompt abortSignal s of
             (s', Next) \<Rightarrow> streamWhile env S prompt abortSignal s'
           | (s', c) \<Rightarrow> (s', c)
      else (s, Break))"
  by pat_completeness auto
termination
proof (relation "measure (\<lambda>(env, S, prompt, abortSignal, s). nat (maxIterations S - iteration s))")
  show "wf (measure (\<lambda>(env :: 'w environment, S :: ('w, 'z) RalphLoopAgentSettings_scheme,
      prompt :: string, abortSignal :: AbortSignal option, s :: 'w invocation).
      nat (maxIterations S - iteration s)))"
    by simp
next
  fix env :: "'w environment" and S :: "('w, 'z) RalphLoopAgentSettings_scheme"
    and prompt :: string and abortSignal :: "AbortSignal option"
    and s s' :: "'w invocation" and c :: control
  assume lt: "iteration s < maxIterations S - 1"
    and body: "(s', c) = streamBody env S prompt abortSignal s" and c: "c = Next"
  from body c have "iteration s' = iteration s + 1"
    unfolding streamBody_def streamVerify_def iterate_def Let_def
    by (auto split: if_splits prod.splits sum.splits option.splits)
  with lt show "((env, S, prompt, abortSignal, s'), (env, S, prompt, abortSignal, s))
      \<in> measure (\<lambda>(env, S, prompt, abortSignal, s). nat (maxIterations S - iteration s))"
    by simp
qed

definition streamInit :: "'w \<Rightarrow> 'w invocation" where
  "streamInit w = \<lparr>allResults = [], currentMessages = [], iteration = 0, trace = [], world = w\<rparr>"

text \<open>Lines 385-427: the final iteration, streamed.\<close>

definition streamFinal ::
  "'w environment \<Rightarrow> ('w, 'z) RalphLoopAgentSettings_scheme \<Rightarrow> string \<Rightarrow> AbortSignal option \<Rightarrow>
   'w invocation \<Rightarrow> 'w invocation \<times> StreamTextResult outcome" where
  "streamFinal env S prompt abortSignal s0 =
     (let s1 = s0\<lparr>iteration := iteration s0 + 1\<rparr>;
          call = iterationCall S prompt abortSignal s1
      in case streamText env (params call) (world s1) of
           (Inl e, w) \<Rightarrow>
             (s1\<lparr>trace := trace s1 @ [StreamTextCall FinalIteration call (Inl e)], world := w\<rparr>,
              Threw e)
         | (Inr handle, w) \<Rightarrow>
             (s1\<lparr>trace := trace s1 @ [StreamTextCall FinalIteration call (Inr handle)], world := w\<rparr>,
              Returned handle))"

text \<open>
  The rest of \<^verbatim>\<open>stream()\<close> from the head of the loop, with the locals \<open>s\<close>: the loop, then
  the final iteration unless the loop was left by \<^verbatim>\<open>return\<close> or by an exception.
\<close>

definition streamFrom ::
  "'w environment \<Rightarrow> ('w, 'z) RalphLoopAgentSettings_scheme \<Rightarrow> string \<Rightarrow> AbortSignal option \<Rightarrow>
   'w invocation \<Rightarrow> 'w invocation \<times> StreamTextResult outcome" where
  "streamFrom env S prompt abortSignal s =
     (case streamWhile env S prompt abortSignal s of
        (s', Return handle) \<Rightarrow> (s', Returned handle)
      | (s', Throw e) \<Rightarrow> (s', Threw e)
      | (s', _) \<Rightarrow> streamFinal env S prompt abortSignal s')"

text \<open>\<^verbatim>\<open>stream({ prompt, abortSignal })\<close>, started in the world \<open>w\<close>.\<close>

definition stream ::
  "'w environment \<Rightarrow> ('w, 'z) RalphLoopAgentSettings_scheme \<Rightarrow> string \<Rightarrow> AbortSignal option \<Rightarrow>
   'w \<Rightarrow> 'w invocation \<times> StreamTextResult outcome" where
  "stream env S prompt abortSignal w = streamFrom env S prompt abortSignal (streamInit w)"

subsection \<open>Reading the log\<close>

text \<open>The blocking engine calls, the streaming engine calls, and the records of the completed
  blocking calls, in the order in which they were made.\<close>

fun isGenerateTextCall :: "event \<Rightarrow> bool" where
  "isGenerateTextCall (GenerateTextCall c out) = True"
| "isGenerateTextCall _ = False"

fun isStreamTextCall :: "event \<Rightarrow> bool" where
  "isStreamTextCall (StreamTextCall site c out) = True"
| "isStreamTextCall _ = False"

definition blockingCalls :: "event list \<Rightarrow> event list" where
  "blockingCalls tr = filter isGenerateTextCall tr"

definition engineCalls :: "event list \<Rightarrow> event list" where
  "engineCalls tr = filter (\<lambda>ev. isGenerateTextCall ev \<or> isStreamTextCall ev) tr"

definition streamingCalls :: "event list \<Rightarrow> event list" where
  "streamingCalls tr = filter isStreamTextCall tr"

fun completedResult :: "event \<Rightarrow> GenerateTextResult list" where
  "completedResult (GenerateTextCall c (Inr r)) = [r]"
| "completedResult _ = []"

definition completedResults :: "event list \<Rightarrow> GenerateTextResult list" where
  "completedResults tr = concat (map completedResult tr)"

text \<open>The arguments of the streaming engine calls of a log.\<close>

fun streamParamsOf :: "event \<Rightarrow> call_params list" where
  "streamParamsOf (StreamTextCall site c out) = [params c]"
| "streamParamsOf _ = []"

definition streamedParams :: "event list \<Rightarrow> call_params list" where
  "streamedParams tr = concat (map streamParamsOf tr)"


text \<open>The log entry of the engine call that a pass starting with the locals \<open>s\<close> makes.\<close>

definition nextCall ::
  "('w, 'z) RalphLoopAgentSettings_scheme \<Rightarrow> string \<Rightarrow> AbortSignal option \<Rightarrow>
   ('w, 'm) invocation_scheme \<Rightarrow> engine_call" where
  "nextCall S prompt abortSignal s =
     iterationCall S prompt abortSignal (s\<lparr>iteration := iteration s + 1\<rparr>)"

subsection \<open>The conversation and the calls, as the specification describes them\<close>

text \<open>
  Modelled from the specification, to be compared with what the code does.  The conversation
  state after a log: the response messages of every completed blocking call and, for every
  verification that answered \<^verbatim>\<open>complete: false\<close> with a non-empty reason, the feedback message,
  in the order of the log.
\<close>

fun contribution :: "event \<Rightarrow> ModelMessage list" where
  "contribution (GenerateTextCall c (Inr r)) = response_messages r"
| "contribution (GenerateTextCall c (Inl e)) = []"
| "contribution (VerifyCompletionCall k v) =
     (if \<not> complete v \<and> truthy (vc_reason v) then [feedbackMessage (the (vc_reason v))] else [])"
| "contribution (StreamTextCall site c out) = []"

definition conversationOf :: "event list \<Rightarrow> ModelMessage list" where
  "conversationOf tr = concat (map contribution tr)"

text \<open>
  The outbound message list of iteration \<open>i\<close> over the conversation \<open>conv\<close>, in the words of
  the specification: system messages, the original prompt, the accumulated conversation, and
  the continuation directive if \<open>i > 1\<close>.
\<close>

definition outboundMessages ::
  "('w, 'z) RalphLoopAgentSettings_scheme \<Rightarrow> string \<Rightarrow> ModelMessage list \<Rightarrow> int \<Rightarrow> ModelMessage list" where
  "outboundMessages S prompt conv i =
     buildSystemMessages S @ [initialUserMessage prompt] @ conv @
     (if i > 1 then [continuationMessage] else [])"

text \<open>
  What the log entry of an engine call must be, given the log \<open>pre\<close> written before it: an
  iteration's call (blocking, or the streamed final one) belongs to the iteration after the
  blocking calls made so far; the early streaming call belongs to the iteration just verified
  and carries the conversation without directive.
\<close>

definition expectedIterationCall ::
  "('w, 'z) RalphLoopAgentSettings_scheme \<Rightarrow> string \<Rightarrow> AbortSignal option \<Rightarrow> event list \<Rightarrow> engine_call" where
  "expectedIterationCall S prompt abortSignal pre =
     \<lparr>at_iteration = int (length (blockingCalls pre)) + 1,
      conversation = conversationOf pre,
      params = fullParams S
        (outboundMessages S prompt (conversationOf pre) (int (length (blockingCalls pre)) + 1))
        abortSignal\<rparr>"

definition expectedEarlyCall ::
  "('w, 'z) RalphLoopAgentSettings_scheme \<Rightarrow> string \<Rightarrow> AbortSignal option \<Rightarrow> event list \<Rightarrow> engine_call" where
  "expectedEarlyCall S prompt abortSignal pre =
     \<lparr>at_iteration = int (length (blockingCalls pre)),
      conversation = conversationOf pre,
      params = earlyParams S
        (buildSystemMessages S @ [initialUserMessage prompt] @ conversationOf pre) abortSignal\<rparr>"

fun isCompletedCall :: "event \<Rightarrow> bool" where
  "isCompletedCall (GenerateTextCall c (Inr r)) = True"
| "isCompletedCall _ = False"

fun isSuccessfulVerification :: "event \<Rightarrow> bool" where
  "isSuccessfulVerification (VerifyCompletionCall k v) = complete v"
| "isSuccessfulVerification _ = False"

text \<open>
  The predicate is asked right after a completed blocking call, about the iteration of that
  call; the early streaming call follows a successful verification.
\<close>

fun okEvent ::
  "('w, 'z) RalphLoopAgentSettings_scheme \<Rightarrow> string \<Rightarrow> AbortSignal option \<Rightarrow> event list \<Rightarrow>
   event \<Rightarrow> bool" where
  "okEvent S prompt abortSignal pre (GenerateTextCall c out) =
     (c = expectedIterationCall S prompt abortSignal pre)"
| "okEvent S prompt abortSignal pre (VerifyCompletionCall k v) =
     (k = int (length (blockingCalls pre)) \<and> pre \<noteq> [] \<and> isCompletedCall (last pre))"
| "okEvent S prompt abortSignal pre (StreamTextCall FinalIteration c out) =
     (c = expectedIterationCall S prompt abortSignal pre)"
| "okEvent S prompt abortSignal pre (StreamTextCall EarlyCompletion c out) =
     (c = expectedEarlyCall S prompt abortSignal pre \<and> pre \<noteq> [] \<and>
      isSuccessfulVerification (last pre))"

text \<open>A log is well formed when each entry is what it must be after the entries before it.\<close>

fun wfFrom ::
  "('w, 'z) RalphLoopAgentSettings_scheme \<Rightarrow> string \<Rightarrow> AbortSignal option \<Rightarrow> event list \<Rightarrow>
   event list \<Rightarrow> bool" where
  "wfFrom S prompt abortSignal pre [] = True"
| "wfFrom S prompt abortSignal pre (ev # rest) =
     (okEvent S prompt abortSignal pre ev \<and> wfFrom S prompt abortSignal (pre @ [ev]) rest)"

definition wfTrace ::
  "('w, 'z) RalphLoopAgentSettings_scheme \<Rightarrow> string \<Rightarrow> AbortSignal option \<Rightarrow> event list \<Rightarrow> bool" where
  "wfTrace S prompt abortSignal tr = wfFrom S prompt abortSignal [] tr"

text \<open>
  The locals at the head of the loop agree with the log: one completed blocking call per
  iteration so far, one record per call, the conversation as the specification builds it, and
  neither a successful verification nor a streaming call yet.
\<close>

definition headInv ::
  "('w, 'z) RalphLoopAgentSettings_scheme \<Rightarrow> string \<Rightarrow> AbortSignal option \<Rightarrow>
   ('w, 'm) invocation_scheme \<Rightarrow> bool" where
  "headInv S prompt abortSignal s \<longleftrightarrow>
     iteration s = int (length (blockingCalls (trace s))) \<and>
     allResults s = completedResults (trace s) \<and>
     length (allResults s) = length (blockingCalls (trace s)) \<and>
     currentMessages s = conversationOf (trace s) \<and>
     wfTrace S prompt abortSignal (trace s) \<and>
     (\<forall>ev \<in> set (trace s). \<not> isSuccessfulVerification ev) \<and>
     streamingCalls (trace s) = []"

text \<open>At the head of the loop of \<^verbatim>\<open>loop()\<close> the two extra locals still have their initial values.\<close>

definition loopHead ::
  "('w, 'z) RalphLoopAgentSettings_scheme \<Rightarrow> string \<Rightarrow> AbortSignal option \<Rightarrow> 'w loop_locals \<Rightarrow> bool" where
  "loopHead S prompt abortSignal s \<longleftrightarrow>
     headInv S prompt abortSignal s \<and> completionReason s = MaxIterations \<and> reason s = None"

text \<open>
  What holds of the locals \<open>s\<close> when the loop of \<^verbatim>\<open>loop()\<close> has been left in the way \<open>c\<close>.
\<close>

definition loopEnd ::
  "('w, 'z) RalphLoopAgentSettings_scheme \<Rightarrow> string \<Rightarrow> AbortSignal option \<Rightarrow> 'w loop_locals \<Rightarrow>
   control \<Rightarrow> bool" where
  "loopEnd S prompt abortSignal s c \<longleftrightarrow>
     wfTrace S prompt abortSignal (trace s) \<and>
     allResults s = completedResults (trace s) \<and>
     currentMessages s = conversationOf (trace s) \<and>
     streamingCalls (trace s) = [] \<and>
     (c = Break \<or> (\<exists>e. c = Throw e)) \<and>
     (c = Break \<longrightarrow>
        iteration s = int (length (blockingCalls (trace s))) \<and>
        length (allResults s) = length (blockingCalls (trace s))) \<and>
     (\<forall>k v. VerifyCompletionCall k v \<in> set (trace s) \<and> complete v \<longrightarrow>
        c = Break \<and> completionReason s = Verified \<and> reason s = vc_reason v \<and> k = iteration s \<and>
        last (trace s) = VerifyCompletionCall k v)"

text \<open>At the head of the loop of \<^verbatim>\<open>stream()\<close> the blocking iterations stay below the budget.\<close>

definition streamHead ::
  "('w, 'z) RalphLoopAgentSettings_scheme \<Rightarrow> string \<Rightarrow> AbortSignal option \<Rightarrow> 'w invocation \<Rightarrow> bool" where
  "streamHead S prompt abortSignal s \<longleftrightarrow>
     headInv S prompt abortSignal s \<and> iteration s \<le> max 0 (maxIterations S - 1)"

text \<open>What holds of the locals \<open>s\<close> when \<^verbatim>\<open>stream()\<close> has ended with \<open>out\<close>.\<close>

definition streamDone ::
  "('w, 'z) RalphLoopAgentSettings_scheme \<Rightarrow> string \<Rightarrow> AbortSignal option \<Rightarrow> 'w invocation \<Rightarrow>
   StreamTextResult outcome \<Rightarrow> bool" where
  "streamDone S prompt abortSignal s out \<longleftrightarrow>
     wfTrace S prompt abortSignal (trace s) \<and>
     allResults s = completedResults (trace s) \<and>
     currentMessages s = conversationOf (trace s) \<and>
     int (length (blockingCalls (trace s))) \<le> max 0 (maxIterations S - 1) \<and>
     length (streamingCalls (trace s)) \<le> 1 \<and>
     (\<forall>h. out = Returned h \<longrightarrow>
        (\<exists>tr site c. trace s = tr @ [StreamTextCall site c (Inr h)] \<and> streamingCalls tr = []))"

definition streamEnd ::
  "('w, 'z) RalphLoopAgentSettings_scheme \<Rightarrow> string \<Rightarrow> AbortSignal option \<Rightarrow> 'w invocation \<Rightarrow>
   control \<Rightarrow> bool" where
  "streamEnd S prompt abortSignal s c =
     (case c of
        Next \<Rightarrow> False
      | Break \<Rightarrow> streamHead S prompt abortSignal s
      | Return h \<Rightarrow> streamDone S prompt abortSignal s (Returned h)
      | Throw e \<Rightarrow> streamDone S prompt abortSignal s (Threw e))"

text \<open>
  One more pass: from the locals \<open>s\<close> at the head of the loop, the guard holds and the body
  ends with \<open>Next\<close> in the locals \<open>s'\<close>.
\<close>

definition loopStep ::
  "'w environment \<Rightarrow> ('w, 'z) RalphLoopAgentSettings_scheme \<Rightarrow> string \<Rightarrow> AbortSignal option \<Rightarrow>
   'w loop_locals \<Rightarrow> 'w loop_locals \<Rightarrow> bool" where
  "loopStep env S prompt abortSignal s s' \<longleftrightarrow>
     iteration s < maxIterations S \<and> loopBody env S prompt abortSignal s = (s', Next)"

definition streamStep ::
  "'w environment \<Rightarrow> ('w, 'z) RalphLoopAgentSettings_scheme \<Rightarrow> string \<Rightarrow> AbortSignal option \<Rightarrow>
   'w invocation \<Rightarrow> 'w invocation \<Rightarrow> bool" where
  "streamStep env S prompt abortSignal s s' \<longleftrightarrow>
     iteration s < maxIterations S - 1 \<and> streamBody env S prompt abortSignal s = (s', Next)"

text \<open>
  No collaborator ever throws: the engine (blocking and streaming), the lifecycle callbacks
  and the verification predicate, where configured, return in every world.
\<close>

definition collaboratorsReturn ::
  "'w environment \<Rightarrow> ('w, 'z) RalphLoopAgentSettings_scheme \<Rightarrow> bool" where
  "collaboratorsReturn env S \<longleftrightarrow>
     (\<forall>p w. \<exists>r. fst (generateText env p w) = Inr r) \<and>
     (\<forall>p w. \<exists>h. fst (streamText env p w) = Inr h) \<and>
     (\<forall>i w. fst (callOnIterationStart S i w) = Inr ()) \<and>
     (\<forall>i d r w. fst (callOnIterationEnd S i d r w) = Inr ()) \<and>
     (\<forall>verify ctx w. verifyCompletion S = Some verify \<longrightarrow> (\<exists>v. fst (verify ctx w) = Inr v))"

subsection \<open>A test environment\<close>

text \<open>
  A world that counts the engine calls made so far.  The engine always returns; the result of
  the call made in world \<open>n\<close> is marked with \<open>n\<close>.  The abort signal is set in the worlds
  picked by \<open>abortedAt\<close>.
\<close>

definition testResult :: "int \<Rightarrow> GenerateTextResult" where
  "testResult n =
     \<lparr>result_text = ''draft'',
      response_messages = [\<lparr>role = Assistant, content = StringContent ''draft''\<rparr>],
      result_metadata = replicate (nat n) CHR ''x''\<rparr>"

definition testEnvironment :: "(int \<Rightarrow> bool) \<Rightarrow> int environment" where
  "testEnvironment abortedAt =
     \<lparr>generateText = (\<lambda>p w. (Inr (testResult w), w + 1)),
      streamText = (\<lambda>p w. (Inr (StreamHandle (nat w)), w + 1)),
      aborted = (\<lambda>a w. abortedAt w),
      now = (\<lambda>w. w)\<rparr>"

definition testSettings ::
  "int \<Rightarrow> (VerifyCompletionContext \<Rightarrow> (VerifyCompletionResult, int) effect) option \<Rightarrow>
   int RalphLoopAgentSettings" where
  "testSettings count verify =
     \<lparr>id' = None, model = ''test-model'', instructions = Some (InstructionString ''Be brief.''),
      tools = None, toolChoice = None, stopWhen = Some (IterationStopCondition count),
      toolStopWhen = None, maxOutputTokens = None, temperature = None, topP = Some 1, topK = None,
      presencePenalty = None, frequencyPenalty = None, stopSequences = None, seed = Some 7,
      experimental_telemetry = None, activeTools = None, prepareStep = None,
      experimental_repairToolCall = None, providerOptions = None, experimental_context = None,
      onIterationStart = None, onIterationEnd = None, verifyCompletion = verify\<rparr>"

text \<open>A predicate that is satisfied from iteration \<open>k\<close> on, and says why not before.\<close>

definition verifyFrom :: "int \<Rightarrow> VerifyCompletionContext \<Rightarrow> (VerifyCompletionResult, int) effect" where
  "verifyFrom k ctx w =
     (if ctx_iteration ctx \<ge> k
      then (Inr \<lparr>complete = True, vc_reason = Some ''done''\<rparr>, w)
      else (Inr \<lparr>complete = False, vc_reason = Some ''not yet''\<rparr>, w))"


definition refusedStreamLog :: "event list" where
  "refusedStreamLog =
     trace (fst (stream (testEnvironment (\<lambda>w. False)) (testSettings 3 (Some (verifyFrom 5)))
       ''Summarize X'' None 0))"

text \<open>
  The log of a streaming run with budget 4 whose predicate agrees at iteration 2: two blocking
  calls, each followed by its verification, then the \<^verbatim>\<open>streamText\<close> call of lines 364-373.
\<close>

definition verifiedStreamLog :: "event list" where
  "verifiedStreamLog =
     trace (fst (stream (testEnvironment (\<lambda>w. False)) (testSettings 4 (Some (verifyFrom 2)))
       ''Summarize X'' None 0))"

text \<open>
  Settings with budget 3 and no predicate whose \<^verbatim>\<open>onIterationStart\<close> callback throws at
  iteration 2.
\<close>

definition failingStart :: "int \<Rightarrow> (unit, int) effect" where
  "failingStart i w = (if i = 2 then (Inl (Thrown ''start failed''), w) else (Inr (), w))"

definition failingStartSettings :: "int RalphLoopAgentSettings" where
  "failingStartSettings = (testSettings 3 None)\<lparr>onIterationStart := Some failingStart\<rparr>"

section \<open>Helper lemmas\<close>

lemma blockingCalls_simps [simp]:
  "blockingCalls [] = []"
  "blockingCalls (tr @ tr') = blockingCalls tr @ blockingCalls tr'"
  "blockingCalls (GenerateTextCall c out # tr) = GenerateTextCall c out # blockingCalls tr"
  "blockingCalls (VerifyCompletionCall k v # tr) = blockingCalls tr"
  "blockingCalls (StreamTextCall site c out' # tr) = blockingCalls tr"
  by (simp_all add: blockingCalls_def)

lemma streamingCalls_simps [simp]:
  "streamingCalls [] = []"
  "streamingCalls (tr @ tr') = streamingCalls tr @ streamingCalls tr'"
  "streamingCalls (GenerateTextCall c out # tr) = streamingCalls tr"
  "streamingCalls (VerifyCompletionCall k v # tr) = streamingCalls tr"
  "streamingCalls (StreamTextCall site c out' # tr) = StreamTextCall site c out' # streamingCalls tr"
  by (simp_all add: streamingCalls_def)

lemma engineCalls_simps [simp]:
  "engineCalls [] = []"
  "engineCalls (tr @ tr') = engineCalls tr @ engineCalls tr'"
  "engineCalls (GenerateTextCall c out # tr) = GenerateTextCall c out # engineCalls tr"
  "engineCalls (VerifyCompletionCall k v # tr) = engineCalls tr"
  "engineCalls (StreamTextCall site c out' # tr) = StreamTextCall site c out' # engineCalls tr"
  by (simp_all add: engineCalls_def)

lemma completedResults_simps [simp]:
  "completedResults [] = []"
  "completedResults (tr @ tr') = completedResults tr @ completedResults tr'"
  "completedResults (ev # tr) = completedResult ev @ completedResults tr"
  by (simp_all add: completedResults_def)

lemma conversationOf_simps [simp]:
  "conversationOf [] = []"
  "conversationOf (tr @ tr') = conversationOf tr @ conversationOf tr'"
  "conversationOf (ev # tr) = contribution ev @ conversationOf tr"
  by (simp_all add: conversationOf_def)

lemma engineCalls_no_streaming:
  "streamingCalls tr = [] \<Longrightarrow> engineCalls tr = blockingCalls tr"
  unfolding engineCalls_def blockingCalls_def streamingCalls_def
  by (induction tr) (auto split: if_splits)

lemma wfFrom_append:
  "wfFrom S prompt abortSignal pre (xs @ ys) \<longleftrightarrow>
     wfFrom S prompt abortSignal pre xs \<and> wfFrom S prompt abortSignal (pre @ xs) ys"
  by (induction xs arbitrary: pre) auto

lemma wfTrace_simps [simp]:
  "wfTrace S prompt abortSignal []"
  "wfTrace S prompt abortSignal (tr @ ev # rest) \<longleftrightarrow>
     wfTrace S prompt abortSignal tr \<and> okEvent S prompt abortSignal tr ev \<and>
     wfFrom S prompt abortSignal (tr @ [ev]) rest"
  by (simp_all add: wfTrace_def wfFrom_append)

lemma wfTrace_event:
  "wfTrace S prompt abortSignal (pre @ ev # post) \<Longrightarrow> okEvent S prompt abortSignal pre ev"
  by (simp add: wfTrace_def wfFrom_append)

lemma iterationMessages_outbound:
  "iterationMessages (buildSystemMessages S) (initialUserMessage prompt) conv i =
     outboundMessages S prompt conv i"
  by (simp add: iterationMessages_def outboundMessages_def Let_def)

lemma nextCall_expected:
  "iteration s = int (length (blockingCalls (trace s))) \<Longrightarrow>
   currentMessages s = conversationOf (trace s) \<Longrightarrow>
   nextCall S prompt abortSignal s = expectedIterationCall S prompt abortSignal (trace s)"
  by (simp add: nextCall_def iterationCall_def expectedIterationCall_def iterationMessages_outbound)

subsection \<open>One blocking iteration\<close>

lemma iterate_Inr:
  assumes "iterate env S prompt abortSignal s = (s', Inr r)"
  shows "iteration s' = iteration s + 1"
    and "allResults s' = allResults s @ [r]"
    and "currentMessages s' = currentMessages s @ response_messages r"
    and "trace s' = trace s @ [GenerateTextCall (nextCall S prompt abortSignal s) (Inr r)]"
  using assms unfolding iterate_def Let_def nextCall_def
  by (auto split: prod.splits sum.splits simp: iterationCall_def)

lemma iterate_Inl:
  assumes "iterate env S prompt abortSignal s = (s', Inl e)"
  shows "iteration s' = iteration s + 1"
    and "\<exists>evs. trace s' = trace s @ evs \<and> allResults s' = allResults s @ completedResults evs
           \<and> currentMessages s' = currentMessages s @ conversationOf evs
           \<and> (evs = [] \<or> (\<exists>out. evs = [GenerateTextCall (nextCall S prompt abortSignal s) out]))"
  using assms unfolding iterate_def Let_def nextCall_def
  by (auto split: prod.splits sum.splits simp: iterationCall_def)

lemma iterate_loop_locals:
  fixes s :: "'w loop_locals"
  assumes "iterate env S prompt abortSignal s = (s', x)"
  shows "completionReason s' = completionReason s" and "reason s' = reason s"
  using assms unfolding iterate_def Let_def
  by (auto split: prod.splits sum.splits)

text \<open>When the engine and the callbacks return, so does a blocking iteration.\<close>

lemma iterate_returns:
  assumes engine: "\<And>p w. \<exists>r. fst (generateText env p w) = Inr r"
    and start: "\<And>i w. fst (callOnIterationStart S i w) = Inr ()"
    and finish: "\<And>i d r w. fst (callOnIterationEnd S i d r w) = Inr ()"
  shows "\<exists>s' r. iterate env S prompt abortSignal s = (s', Inr r)"
proof -
  let ?s1 = "s\<lparr>iteration := iteration s + 1\<rparr>"
  obtain w1 where w1: "callOnIterationStart S (iteration ?s1) (world ?s1) = (Inr (), w1)"
    using start [of "iteration ?s1" "world ?s1"] by (metis prod.collapse)
  let ?s2 = "?s1\<lparr>world := w1\<rparr>"
  let ?call = "iterationCall S prompt abortSignal ?s2"
  obtain r w2 where w2: "generateText env (params ?call) (world ?s2) = (Inr r, w2)"
    using engine [of "params ?call" "world ?s2"] by (metis prod.collapse)
  let ?s3 = "?s2\<lparr>allResults := allResults ?s2 @ [r],
      currentMessages := currentMessages ?s2 @ response_messages r,
      trace := trace ?s2 @ [GenerateTextCall ?call (Inr r)], world := w2\<rparr>"
  obtain w3 where w3: "callOnIterationEnd S (iteration ?s3) (now env (world ?s3) - now env (world ?s1)) r (world ?s3) = (Inr (), w3)"
    using finish [of "iteration ?s3" _ r "world ?s3"] by (metis prod.collapse)
  show ?thesis
    using w1 w2 w3 unfolding iterate_def Let_def by simp
qed

subsection \<open>The verification step\<close>

lemma loopVerify_cases [consumes 1, case_names none threw verified continue]:
  assumes lv: "loopVerify S prompt s r = (s', c)"
  obtains "verifyCompletion S = None" "c = Next" "s' = s"
  | e where "c = Throw e" "trace s' = trace s" "iteration s' = iteration s"
      "allResults s' = allResults s" "currentMessages s' = currentMessages s"
      "completionReason s' = completionReason s" "reason s' = reason s"
  | v where "complete v" "c = Break"
      "trace s' = trace s @ [VerifyCompletionCall (iteration s) v]" "iteration s' = iteration s"
      "allResults s' = allResults s" "currentMessages s' = currentMessages s"
      "completionReason s' = Verified" "reason s' = vc_reason v"
  | v where "\<not> complete v" "c = Next"
      "trace s' = trace s @ [VerifyCompletionCall (iteration s) v]" "iteration s' = iteration s"
      "allResults s' = allResults s"
      "currentMessages s' = currentMessages s @ contribution (VerifyCompletionCall (iteration s) v)"
      "completionReason s' = completionReason s" "reason s' = reason s"
proof (cases "verifyCompletion S")
  case None
  with lv have "c = Next" "s' = s" by (simp_all add: loopVerify_def)
  with None show ?thesis using that(1) by blast
next
  case (Some verify)
  let ?ctx = "\<lparr>ctx_result = r, ctx_iteration = iteration s,
                ctx_allResults = allResults s, ctx_originalPrompt = prompt\<rparr>"
  obtain x w where vw: "verify ?ctx (world s) = (x, w)" by (cases "verify ?ctx (world s)")
  show ?thesis
  proof (cases x)
    case (Inl e)
    with lv Some vw have "s' = s\<lparr>world := w\<rparr>" "c = Throw e"
      by (simp_all add: loopVerify_def)
    then show ?thesis using that(2) [of e] by simp
  next
    case (Inr v)
    show ?thesis
    proof (cases "complete v")
      case True
      with lv Some vw Inr have
        "s' = s\<lparr>trace := trace s @ [VerifyCompletionCall (iteration s) v], world := w,
                completionReason := Verified, reason := vc_reason v\<rparr>" "c = Break"
        by (simp_all add: loopVerify_def Let_def)
      then show ?thesis using that(3) [of v] True by simp
    next
      case False
      with lv Some vw Inr have c: "c = Next"
        and s': "s' = (if truthy (vc_reason v)
            then s\<lparr>trace := trace s @ [VerifyCompletionCall (iteration s) v], world := w,
                   currentMessages := currentMessages s @ [feedbackMessage (the (vc_reason v))]\<rparr>
            else s\<lparr>trace := trace s @ [VerifyCompletionCall (iteration s) v], world := w\<rparr>)"
        by (simp_all add: loopVerify_def Let_def split: if_splits)
      show ?thesis
        using that(4) [of v] False c s' by (cases "truthy (vc_reason v)") simp_all
    qed
  qed
qed

lemma streamVerify_cases [consumes 1, case_names none threw early continue]:
  assumes sv: "streamVerify env S prompt abortSignal s r = (s', c)"
  obtains "verifyCompletion S = None" "c = Next" "s' = s"
  | e where "c = Throw e" "trace s' = trace s" "iteration s' = iteration s"
      "allResults s' = allResults s" "currentMessages s' = currentMessages s"
  | v out where "complete v" "case out of Inl e \<Rightarrow> c = Throw e | Inr h \<Rightarrow> c = Return h"
      "trace s' = trace s @ [VerifyCompletionCall (iteration s) v,
          StreamTextCall EarlyCompletion (earlyCall S prompt abortSignal s) out]"
      "iteration s' = iteration s"
      "allResults s' = allResults s" "currentMessages s' = currentMessages s"
  | v where "\<not> complete v" "c = Next"
      "trace s' = trace s @ [VerifyCompletionCall (iteration s) v]" "iteration s' = iteration s"
      "allResults s' = allResults s"
      "currentMessages s' = currentMessages s @ contribution (VerifyCompletionCall (iteration s) v)"
proof (cases "verifyCompletion S")
  case None
  with sv have "c = Next" "s' = s" by (simp_all add: streamVerify_def)
  with None show ?thesis using that(1) by blast
next
  case (Some verify)
  let ?ctx = "\<lparr>ctx_result = r, ctx_iteration = iteration s,
                ctx_allResults = allResults s, ctx_originalPrompt = prompt\<rparr>"
  obtain x w where vw: "verify ?ctx (world s) = (x, w)" by (cases "verify ?ctx (world s)")
  show ?thesis
  proof (cases x)
    case (Inl e)
    with sv Some vw have "s' = s\<lparr>world := w\<rparr>" "c = Throw e"
      by (simp_all add: streamVerify_def)
    then show ?thesis using that(2) [of e] by simp
  next
    case (Inr v)
    let ?s1 = "s\<lparr>trace := trace s @ [VerifyCompletionCall (iteration s) v], world := w\<rparr>"
    show ?thesis
    proof (cases "complete v")
      case True
      have call: "earlyCall S prompt abortSignal ?s1 = earlyCall S prompt abortSignal s"
        by (simp add: earlyCall_def)
      obtain out w' where st:
        "streamText env (params (earlyCall S prompt abortSignal s)) w = (out, w')"
        by (cases "streamText env (params (earlyCall S prompt abortSignal s)) w")
      from sv Some vw Inr True st call have
        "s' = ?s1\<lparr>trace := trace ?s1 @
                 [StreamTextCall EarlyCompletion (earlyCall S prompt abortSignal s) out],
               world := w'\<rparr>"
        "case out of Inl e \<Rightarrow> c = Throw e | Inr h \<Rightarrow> c = Return h"
        by (cases out; simp add: streamVerify_def Let_def)+
      then show ?thesis using that(3) [of v out] True by simp
    next
      case False
      with sv Some vw Inr have c: "c = Next"
        and s': "s' = (if truthy (vc_reason v)
            then ?s1\<lparr>currentMessages := currentMessages s @ [feedbackMessage (the (vc_reason v))]\<rparr>
            else ?s1)"
        by (simp_all add: streamVerify_def Let_def split: if_splits)
      show ?thesis
        using that(4) [of v] False c s' by (cases "truthy (vc_reason v)") simp_all
    qed
  qed
qed

subsection \<open>The loop of \<^verbatim>\<open>loop()\<close>\<close>

lemma loopWhile_unfold:
  "loopWhile env S prompt abortSignal s =
     (if iteration s < maxIterations S
      then case loopBody env S prompt abortSignal s of
             (s', Next) \<Rightarrow> loopWhile env S prompt abortSignal s'
           | (s', c) \<Rightarrow> (s', c)
      else (s, Break))"
  by (rule loopWhile.simps)

declare loopWhile.simps [simp del]

lemma streamWhile_unfold:
  "streamWhile env S prompt abortSignal s =
     (if iteration s < maxIterations S - 1
      then case streamBody env S prompt abortSignal s of
             (s', Next) \<Rightarrow> streamWhile env S prompt abortSignal s'
           | (s', c) \<Rightarrow> (s', c)
      else (s, Break))"
  by (rule streamWhile.simps)

declare streamWhile.simps [simp del]

text \<open>Without predicate and without failures, a pass makes one engine call and goes on.\<close>

lemma loop_budget_pass:
  assumes noVerify: "verifyCompletion S = None"
    and noAbort: "\<And>w. \<not> isAborted env abortSignal w"
    and engine: "\<And>p w. \<exists>r. fst (generateText env p w) = Inr r"
    and start: "\<And>i w. fst (callOnIterationStart S i w) = Inr ()"
    and finish: "\<And>i d r w. fst (callOnIterationEnd S i d r w) = Inr ()"
  shows "\<exists>s'. loopBody env S prompt abortSignal s = (s', Next)
           \<and> iteration s' = iteration s + 1
           \<and> completionReason s' = completionReason s
           \<and> length (engineCalls (trace s')) = length (engineCalls (trace s)) + 1
           \<and> allResults s' \<noteq> []"
proof -
  obtain s' r where it: "iterate env S prompt abortSignal s = (s', Inr r)"
    using iterate_returns [OF engine start finish] by blast
  have "loopBody env S prompt abortSignal s = (s', Next)"
    using it noVerify noAbort by (simp add: loopBody_def loopVerify_def)
  then show ?thesis
    using iterate_Inr [OF it] iterate_loop_locals [OF it] by simp
qed

lemma loopWhile_budget:
  assumes noVerify: "verifyCompletion S = None"
    and noAbort: "\<And>w. \<not> isAborted env abortSignal w"
    and engine: "\<And>p w. \<exists>r. fst (generateText env p w) = Inr r"
    and start: "\<And>i w. fst (callOnIterationStart S i w) = Inr ()"
    and finish: "\<And>i d r w. fst (callOnIterationEnd S i d r w) = Inr ()"
    and le: "iteration s \<le> maxIterations S"
  shows "\<exists>s'. loopWhile env S prompt abortSignal s = (s', Break)
        \<and> iteration s' = maxIterations S
        \<and> completionReason s' = completionReason s
        \<and> int (length (engineCalls (trace s'))) =
            int (length (engineCalls (trace s))) + (maxIterations S - iteration s)
        \<and> (iteration s < maxIterations S \<longrightarrow> allResults s' \<noteq> [])"
  using assms
proof (induction env S prompt abortSignal s rule: loopWhile.induct)
  case (1 env S prompt abortSignal s)
  show ?case
  proof (cases "iteration s < maxIterations S")
    case False
    with "1.prems"(6) show ?thesis
      by (simp add: loopWhile_unfold [of env S prompt abortSignal s])
  next
    case True
    obtain s1 where body: "loopBody env S prompt abortSignal s = (s1, Next)"
      and s1: "iteration s1 = iteration s + 1" "completionReason s1 = completionReason s"
        "length (engineCalls (trace s1)) = length (engineCalls (trace s)) + 1"
        "allResults s1 \<noteq> []"
      using loop_budget_pass [OF "1.prems"(1-5), of prompt s] by blast
    have le: "iteration s1 \<le> maxIterations S" using True s1 by simp
    obtain s' where w: "loopWhile env S prompt abortSignal s1 = (s', Break)"
      and s': "iteration s' = maxIterations S" "completionReason s' = completionReason s1"
        "int (length (engineCalls (trace s'))) =
            int (length (engineCalls (trace s1))) + (maxIterations S - iteration s1)"
        "iteration s1 < maxIterations S \<longrightarrow> allResults s' \<noteq> []"
      using "1.IH" [OF True body [symmetric] refl "1.prems"(1-5) le] by blast
    have ne: "allResults s' \<noteq> []"
    proof (cases "iteration s1 < maxIterations S")
      case True
      with s' show ?thesis by simp
    next
      case False
      then have "loopWhile env S prompt abortSignal s1 = (s1, Break)"
        by (simp add: loopWhile_unfold [of env S prompt abortSignal s1])
      with w s1 show ?thesis by simp
    qed
    have "loopWhile env S prompt abortSignal s = (s', Break)"
      using True body w by (simp add: loopWhile_unfold [of env S prompt abortSignal s])
    with s1 s' ne show ?thesis by simp
  qed
qed

subsection \<open>Invariants\<close>

lemma iterate_headInv:
  assumes inv: "headInv S prompt abortSignal s"
    and it: "iterate env S prompt abortSignal s = (s1, Inr r)"
  shows "headInv S prompt abortSignal s1"
  using inv iterate_Inr [OF it]
  by (auto simp add: headInv_def nextCall_expected)

lemma headInv_continue:
  assumes inv: "headInv S prompt abortSignal s1"
    and last: "trace s1 = tr @ [GenerateTextCall call (Inr r)]"
    and v: "\<not> complete v"
    and s': "trace s' = trace s1 @ [VerifyCompletionCall (iteration s1) v]"
      "iteration s' = iteration s1" "allResults s' = allResults s1"
      "currentMessages s' = currentMessages s1 @ contribution (VerifyCompletionCall (iteration s1) v)"
  shows "headInv S prompt abortSignal s'"
  using inv v s' last by (auto simp add: headInv_def)

lemma loopBody_head:
  assumes head: "loopHead S prompt abortSignal s"
    and body: "loopBody env S prompt abortSignal s = (s', Next)"
  shows "loopHead S prompt abortSignal s'"
proof -
  from body have na: "\<not> isAborted env abortSignal (world s)"
    by (auto simp: loopBody_def split: if_splits)
  obtain s1 x where it: "iterate env S prompt abortSignal s = (s1, x)"
    by (cases "iterate env S prompt abortSignal s")
  from body na it obtain r where x: "x = Inr r" and lv: "loopVerify S prompt s1 r = (s', Next)"
    by (cases x) (simp_all add: loopBody_def)
  have inv1: "headInv S prompt abortSignal s1"
    using iterate_headInv head it x by (auto simp: loopHead_def)
  have ll: "completionReason s1 = MaxIterations" "reason s1 = None"
    using iterate_loop_locals [OF it] head by (simp_all add: loopHead_def)
  note tr1 = iterate_Inr(4) [OF it [unfolded x]]
  from lv show ?thesis
  proof (cases rule: loopVerify_cases)
    case none
    with inv1 ll show ?thesis by (simp add: loopHead_def)
  next
    case (continue v)
    with headInv_continue [OF inv1 tr1 continue(1) continue(3-6)] ll show ?thesis
      by (simp add: loopHead_def)
  qed simp_all
qed

lemma loopHead_end: "loopHead S prompt abortSignal s \<Longrightarrow> loopEnd S prompt abortSignal s Break"
  by (auto simp: loopHead_def headInv_def loopEnd_def)

lemma iterate_Inl_log:
  assumes inv: "headInv S prompt abortSignal s"
    and it: "iterate env S prompt abortSignal s = (s1, Inl e)"
  shows "wfTrace S prompt abortSignal (trace s1)"
    and "allResults s1 = completedResults (trace s1)"
    and "currentMessages s1 = conversationOf (trace s1)"
    and "streamingCalls (trace s1) = []"
    and "\<forall>ev \<in> set (trace s1). \<not> isSuccessfulVerification ev"
    and "length (blockingCalls (trace s1)) \<le> length (blockingCalls (trace s)) + 1"
proof -
  from iterate_Inl(2) [OF it] obtain evs where
    evs: "trace s1 = trace s @ evs" "allResults s1 = allResults s @ completedResults evs"
      "currentMessages s1 = currentMessages s @ conversationOf evs"
      "evs = [] \<or> (\<exists>out. evs = [GenerateTextCall (nextCall S prompt abortSignal s) out])"
    by blast
  from inv evs show "wfTrace S prompt abortSignal (trace s1)"
    by (auto simp: headInv_def nextCall_expected)
  from inv evs show "allResults s1 = completedResults (trace s1)"
    by (auto simp: headInv_def)
  from inv evs show "currentMessages s1 = conversationOf (trace s1)"
    by (auto simp: headInv_def)
  from inv evs show "streamingCalls (trace s1) = []"
    by (auto simp: headInv_def)
  from inv evs show "\<forall>ev \<in> set (trace s1). \<not> isSuccessfulVerification ev"
    by (auto simp: headInv_def)
  from evs show "length (blockingCalls (trace s1)) \<le> length (blockingCalls (trace s)) + 1"
    by auto
qed

lemma no_successful_verification:
  "\<forall>ev \<in> set tr. \<not> isSuccessfulVerification ev \<Longrightarrow> VerifyCompletionCall k v \<in> set tr \<Longrightarrow>
   \<not> complete v"
  by force

lemma loopBody_end:
  assumes head: "loopHead S prompt abortSignal s"
    and body: "loopBody env S prompt abortSignal s = (s', c)" and c: "c \<noteq> Next"
  shows "loopEnd S prompt abortSignal s' c"
proof (cases "isAborted env abortSignal (world s)")
  case True
  with body have "s' = s\<lparr>completionReason := Aborted\<rparr>" "c = Break"
    by (simp_all add: loopBody_def)
  with head show ?thesis
    by (auto simp: loopHead_def headInv_def loopEnd_def)
next
  case na: False
  obtain s1 x where it: "iterate env S prompt abortSignal s = (s1, x)"
    by (cases "iterate env S prompt abortSignal s")
  from head have inv: "headInv S prompt abortSignal s" by (simp add: loopHead_def)
  show ?thesis
  proof (cases x)
    case (Inl e)
    with body na it have s': "s' = s1" "c = Throw e" by (simp_all add: loopBody_def)
    from iterate_Inl_log [OF inv it [unfolded Inl]] s' show ?thesis
      by (auto simp: loopEnd_def dest: no_successful_verification)
  next
    case (Inr r)
    with body na it have lv: "loopVerify S prompt s1 r = (s', c)"
      by (simp add: loopBody_def)
    have inv1: "headInv S prompt abortSignal s1"
      using iterate_headInv inv it Inr by blast
    note tr1 = iterate_Inr(4) [OF it [unfolded Inr]]
    from lv c show ?thesis
    proof (cases rule: loopVerify_cases)
      case (threw e)
      with inv1 show ?thesis by (auto simp: headInv_def loopEnd_def)
    next
      case (verified v)
      with inv1 tr1 show ?thesis by (auto simp: headInv_def loopEnd_def)
    qed simp_all
  qed
qed

lemma loopWhile_end:
  assumes "loopHead S prompt abortSignal s"
    and "loopWhile env S prompt abortSignal s = (s', c)"
  shows "loopEnd S prompt abortSignal s' c"
  using assms
proof (induction env S prompt abortSignal s rule: loopWhile.induct)
  case (1 env S prompt abortSignal s)
  show ?case
  proof (cases "iteration s < maxIterations S")
    case False
    with "1.prems" loopHead_end show ?thesis
      by (simp add: loopWhile_unfold [of env S prompt abortSignal s])
  next
    case True
    obtain s1 c1 where body: "loopBody env S prompt abortSignal s = (s1, c1)"
      by (cases "loopBody env S prompt abortSignal s")
    show ?thesis
    proof (cases "c1 = Next")
      case True
      with \<open>iteration s < maxIterations S\<close> body "1.prems"(2)
      have w: "loopWhile env S prompt abortSignal s1 = (s', c)"
        by (simp add: loopWhile_unfold [of env S prompt abortSignal s])
      have "loopHead S prompt abortSignal s1"
        using loopBody_head "1.prems"(1) body True by blast
      with "1.IH" [OF \<open>iteration s < maxIterations S\<close> body [symmetric] True] w
      show ?thesis by blast
    next
      case False
      with \<open>iteration s < maxIterations S\<close> body "1.prems"(2)
      have "s' = s1" "c = c1"
        by (cases c1; simp add: loopWhile_unfold [of env S prompt abortSignal s])+
      with loopBody_end [OF "1.prems"(1) body False] show ?thesis by simp
    qed
  qed
qed

lemma loopInit_head: "loopHead S prompt abortSignal (loopInit w)"
  by (simp add: loopHead_def headInv_def loopInit_def)

lemma loopStep_head:
  "(loopStep env S prompt abortSignal)\<^sup>*\<^sup>* (loopInit w) s \<Longrightarrow> loopHead S prompt abortSignal s"
  by (induction rule: rtranclp_induct) (auto simp: loopInit_head loopStep_def dest: loopBody_head)

subsection \<open>The loop of \<^verbatim>\<open>stream()\<close>\<close>

lemma streamBody_head:
  assumes head: "streamHead S prompt abortSignal s"
    and guard: "iteration s < maxIterations S - 1"
    and body: "streamBody env S prompt abortSignal s = (s', Next)"
  shows "streamHead S prompt abortSignal s'"
proof -
  from body have na: "\<not> isAborted env abortSignal (world s)"
    by (auto simp: streamBody_def split: if_splits)
  obtain s1 x where it: "iterate env S prompt abortSignal s = (s1, x)"
    by (cases "iterate env S prompt abortSignal s")
  from body na it obtain r where x: "x = Inr r"
    and sv: "streamVerify env S prompt abortSignal s1 r = (s', Next)"
    by (cases x) (simp_all add: streamBody_def)
  have inv1: "headInv S prompt abortSignal s1"
    using iterate_headInv head it x by (auto simp: streamHead_def)
  have i1: "iteration s1 \<le> max 0 (maxIterations S - 1)"
    using iterate_Inr(1) [OF it [unfolded x]] guard by simp
  note tr1 = iterate_Inr(4) [OF it [unfolded x]]
  from sv show ?thesis
  proof (cases rule: streamVerify_cases)
    case none
    with inv1 i1 show ?thesis by (simp add: streamHead_def)
  next
    case (continue v)
    with headInv_continue [OF inv1 tr1 continue(1) continue(3-6)] i1 show ?thesis
      by (simp add: streamHead_def)
  next
    case (early v out)
    then show ?thesis by (cases out) simp_all
  qed simp_all
qed

lemma earlyCall_expected:
  "iteration s = int (length (blockingCalls tr)) \<Longrightarrow> currentMessages s = conversationOf tr \<Longrightarrow>
   complete v \<Longrightarrow>
   earlyCall S prompt abortSignal s =
     expectedEarlyCall S prompt abortSignal (tr @ [VerifyCompletionCall k v])"
  by (simp add: earlyCall_def expectedEarlyCall_def)

lemma streamBody_end:
  assumes head: "streamHead S prompt abortSignal s"
    and guard: "iteration s < maxIterations S - 1"
    and body: "streamBody env S prompt abortSignal s = (s', c)" and c: "c \<noteq> Next"
  shows "streamEnd S prompt abortSignal s' c"
proof (cases "isAborted env abortSignal (world s)")
  case True
  with body have "s' = s" "c = Break"
    by (simp_all add: streamBody_def)
  with head show ?thesis
    by (simp add: streamEnd_def)
next
  case na: False
  obtain s1 x where it: "iterate env S prompt abortSignal s = (s1, x)"
    by (cases "iterate env S prompt abortSignal s")
  from head have inv: "headInv S prompt abortSignal s" by (simp add: streamHead_def)
  from head guard have bound: "int (length (blockingCalls (trace s))) + 1 \<le> max 0 (maxIterations S - 1)"
    by (simp add: streamHead_def headInv_def)
  show ?thesis
  proof (cases x)
    case (Inl e)
    with body na it have s': "s' = s1" "c = Throw e" by (simp_all add: streamBody_def)
    from iterate_Inl_log [OF inv it [unfolded Inl]] s' bound show ?thesis
      by (auto simp: streamEnd_def streamDone_def)
  next
    case (Inr r)
    with body na it have sv: "streamVerify env S prompt abortSignal s1 r = (s', c)"
      by (simp add: streamBody_def)
    have inv1: "headInv S prompt abortSignal s1"
      using iterate_headInv inv it Inr by blast
    note tr1 = iterate_Inr(4) [OF it [unfolded Inr]]
    have bound1: "int (length (blockingCalls (trace s1))) \<le> max 0 (maxIterations S - 1)"
      using bound tr1 by simp
    from sv c show ?thesis
    proof (cases rule: streamVerify_cases)
      case (threw e)
      with inv1 bound1 show ?thesis by (auto simp: headInv_def streamEnd_def streamDone_def)
    next
      case (early v out)
      have call: "earlyCall S prompt abortSignal s1 =
          expectedEarlyCall S prompt abortSignal (trace s1 @ [VerifyCompletionCall (iteration s1) v])"
        using inv1 early(1) by (intro earlyCall_expected) (simp_all add: headInv_def)
      show ?thesis
      proof (cases out)
        case (Inl e)
        with early inv1 bound1 call tr1 show ?thesis
          by (auto simp: headInv_def streamEnd_def streamDone_def)
      next
        case (Inr h)
        with early inv1 bound1 call tr1 show ?thesis
          by (auto simp: headInv_def streamEnd_def streamDone_def)
      qed
    qed simp_all
  qed
qed

lemma streamWhile_end:
  assumes "streamHead S prompt abortSignal s"
    and "streamWhile env S prompt abortSignal s = (s', c)"
  shows "streamEnd S prompt abortSignal s' c"
  using assms
proof (induction env S prompt abortSignal s rule: streamWhile.induct)
  case (1 env S prompt abortSignal s)
  show ?case
  proof (cases "iteration s < maxIterations S - 1")
    case False
    with "1.prems" show ?thesis
      by (simp add: streamWhile_unfold [of env S prompt abortSignal s] streamEnd_def)
  next
    case True
    obtain s1 c1 where body: "streamBody env S prompt abortSignal s = (s1, c1)"
      by (cases "streamBody env S prompt abortSignal s")
    show ?thesis
    proof (cases "c1 = Next")
      case True
      with \<open>iteration s < maxIterations S - 1\<close> body "1.prems"(2)
      have w: "streamWhile env S prompt abortSignal s1 = (s', c)"
        by (simp add: streamWhile_unfold [of env S prompt abortSignal s])
      have "streamHead S prompt abortSignal s1"
        using streamBody_head "1.prems"(1) \<open>iteration s < maxIterations S - 1\<close> body True by blast
      with "1.IH" [OF \<open>iteration s < maxIterations S - 1\<close> body [symmetric] True] w
      show ?thesis by blast
    next
      case False
      with \<open>iteration s < maxIterations S - 1\<close> body "1.prems"(2)
      have "s' = s1" "c = c1"
        by (cases c1; simp add: streamWhile_unfold [of env S prompt abortSignal s])+
      with streamBody_end [OF "1.prems"(1) \<open>iteration s < maxIterations S - 1\<close> body False]
      show ?thesis by simp
    qed
  qed
qed

lemma streamFinal_log:
  assumes "streamFinal env S prompt abortSignal s = (s', out)"
  shows "\<exists>x. trace s' = trace s @ [StreamTextCall FinalIteration (nextCall S prompt abortSignal s) x]
           \<and> (case x of Inl e \<Rightarrow> out = Threw e | Inr h \<Rightarrow> out = Returned h)
           \<and> x = fst (streamText env (params (nextCall S prompt abortSignal s)) (world s))"
    and "iteration s' = iteration s + 1"
    and "allResults s' = allResults s"
    and "currentMessages s' = currentMessages s"
  using assms unfolding streamFinal_def Let_def nextCall_def
  by (auto split: prod.splits sum.splits simp: iterationCall_def)

lemma streamFinal_done:
  assumes head: "streamHead S prompt abortSignal s"
    and fin: "streamFinal env S prompt abortSignal s = (s', out)"
  shows "streamDone S prompt abortSignal s' out"
proof -
  from streamFinal_log(1) [OF fin] obtain x where
    x: "trace s' = trace s @ [StreamTextCall FinalIteration (nextCall S prompt abortSignal s) x]"
      "case x of Inl e \<Rightarrow> out = Threw e | Inr h \<Rightarrow> out = Returned h"
    by blast
  with head streamFinal_log(2-4) [OF fin] show ?thesis
    by (cases x) (auto simp: streamHead_def headInv_def streamDone_def nextCall_expected)
qed

lemma streamFrom_done:
  assumes head: "streamHead S prompt abortSignal s"
    and run: "streamFrom env S prompt abortSignal s = (s', out)"
  shows "streamDone S prompt abortSignal s' out"
proof -
  obtain s1 c where w: "streamWhile env S prompt abortSignal s = (s1, c)"
    by (cases "streamWhile env S prompt abortSignal s")
  have e: "streamEnd S prompt abortSignal s1 c"
    using streamWhile_end [OF head w] .
  show ?thesis
  proof (cases c)
    case Next
    with e show ?thesis by (simp add: streamEnd_def)
  next
    case Break
    with w run have "streamFinal env S prompt abortSignal s1 = (s', out)"
      by (simp add: streamFrom_def)
    with e Break streamFinal_done show ?thesis by (auto simp: streamEnd_def)
  next
    case (Return h)
    with w run e show ?thesis by (auto simp: streamFrom_def streamEnd_def)
  next
    case (Throw err)
    with w run e show ?thesis by (auto simp: streamFrom_def streamEnd_def)
  qed
qed

lemma streamInit_head: "streamHead S prompt abortSignal (streamInit w)"
  by (simp add: streamHead_def headInv_def streamInit_def)

lemma streamStep_head:
  "(streamStep env S prompt abortSignal)\<^sup>*\<^sup>* (streamInit w) s \<Longrightarrow> streamHead S prompt abortSignal s"
  by (induction rule: rtranclp_induct) (auto simp: streamInit_head streamStep_def dest: streamBody_head)

text \<open>
  Unfolding the model on concrete inputs: a loop is unfolded only once its guard and the
  pass before it have been evaluated.
\<close>

lemma loopWhile_eval:
  "loopWhile env S prompt abortSignal s =
     (if iteration s < maxIterations S
      then (let r = loopBody env S prompt abortSignal s
            in if snd r = Next then loopWhile env S prompt abortSignal (fst r) else r)
      else (s, Break))"
  by (subst loopWhile_unfold) (auto split: prod.splits control.splits)

lemma streamWhile_eval:
  "streamWhile env S prompt abortSignal s =
     (if iteration s < maxIterations S - 1
      then (let r = streamBody env S prompt abortSignal s
            in if snd r = Next then streamWhile env S prompt abortSignal (fst r) else r)
      else (s, Break))"
  by (subst streamWhile_unfold) (auto split: prod.splits control.splits)


lemmas run_defs =
  loopWhile_eval streamWhile_eval
  loop_def loopBody_def loopVerify_def loopInit_def loopFinish_def
  stream_def streamFrom_def streamBody_def streamVerify_def streamInit_def streamFinal_def
  iterate_def iterationCall_def earlyCall_def Let_def
  maxIterations_def isAborted_def callOnIterationStart_def callOnIterationEnd_def truthy_def
  testEnvironment_def testSettings_def verifyFrom_def

subsection \<open>The end of \<^verbatim>\<open>loop()\<close>\<close>

lemma loop_end:
  assumes run: "loop env S prompt abortSignal w = (s, out)"
  obtains c where "loopWhile env S prompt abortSignal (loopInit w) = (s, c)"
    and "loopEnd S prompt abortSignal s c"
    and "out = (case c of Throw e \<Rightarrow> Threw e | _ \<Rightarrow> loopFinish s)"
proof -
  obtain s1 c where w: "loopWhile env S prompt abortSignal (loopInit w) = (s1, c)"
    by (cases "loopWhile env S prompt abortSignal (loopInit w)")
  have e: "loopEnd S prompt abortSignal s1 c"
    using loopWhile_end [OF loopInit_head w] .
  from run w have "s = s1" "out = (case c of Throw e \<Rightarrow> Threw e | _ \<Rightarrow> loopFinish s1)"
    by (cases c; simp add: loop_def)+
  with w e that show ?thesis by blast
qed

lemma completed_call_counts:
  "tr \<noteq> [] \<Longrightarrow> isCompletedCall (last tr) \<Longrightarrow> blockingCalls tr \<noteq> []"
  by (cases tr rule: rev_cases; cases "last tr" rule: isCompletedCall.cases) auto


lemma loopFinish_Returned:
  "allResults s \<noteq> [] \<Longrightarrow>
   loopFinish s = Returned
     \<lparr>res_text = result_text (last (allResults s)), res_iterations = iteration s,
      res_completionReason = completionReason s, res_reason = reason s,
      res_result = last (allResults s), res_allResults = allResults s\<rparr>"
  by (cases "allResults s") (simp_all add: loopFinish_def Let_def)

lemma loopFinish_Returned_iff:
  "loopFinish s = Returned r \<longleftrightarrow>
   allResults s \<noteq> [] \<and>
   r = \<lparr>res_text = result_text (last (allResults s)), res_iterations = iteration s,
      res_completionReason = completionReason s, res_reason = reason s,
      res_result = last (allResults s), res_allResults = allResults s\<rparr>"
  by (cases "allResults s") (auto simp add: loopFinish_def Let_def)

subsection \<open>Facts about well-formed logs\<close>

lemma completed_le_blocking: "length (completedResults tr) \<le> length (blockingCalls tr)"
proof (induction tr)
  case Nil
  show ?case by simp
next
  case (Cons ev tr)
  then show ?case by (cases ev rule: completedResult.cases) simp_all
qed

lemma wf_first_record:
  assumes wf: "wfTrace S prompt abortSignal tr"
    and ns: "streamingCalls tr = []"
    and len: "length (completedResults tr) = length (blockingCalls tr)"
    and ne: "completedResults tr \<noteq> []"
  shows "\<exists>call rest. tr = GenerateTextCall call (Inr (completedResults tr ! 0)) # rest
           \<and> at_iteration call = 1"
proof (cases tr)
  case Nil
  with ne show ?thesis by simp
next
  case (Cons ev rest)
  with wf have ok: "okEvent S prompt abortSignal [] ev" by (simp add: wfTrace_def)
  show ?thesis
  proof (cases ev)
    case (GenerateTextCall call out)
    with ok have it: "at_iteration call = 1" by (simp add: expectedIterationCall_def)
    show ?thesis
    proof (cases out)
      case (Inl e)
      with Cons GenerateTextCall len completed_le_blocking [of rest] show ?thesis by simp
    next
      case (Inr r)
      with Cons GenerateTextCall it show ?thesis by simp
    qed
  next
    case (VerifyCompletionCall k v)
    with ok show ?thesis by simp
  next
    case (StreamTextCall site call out)
    with Cons ns show ?thesis by simp
  qed
qed

lemma wf_outbound:
  assumes wf: "wfTrace S prompt abortSignal (pre @ ev # post)"
    and ev: "ev = GenerateTextCall call out \<or> ev = StreamTextCall FinalIteration call out'"
  shows "at_iteration call = int (length (blockingCalls pre)) + 1"
    and "conversation call = conversationOf pre"
    and "p_messages (params call) =
           buildSystemMessages S @ [initialUserMessage prompt] @ conversation call @
           (if at_iteration call > 1 then [continuationMessage] else [])"
proof -
  from wf have "okEvent S prompt abortSignal pre ev" by (rule wfTrace_event)
  with ev have c: "call = expectedIterationCall S prompt abortSignal pre" by auto
  show "at_iteration call = int (length (blockingCalls pre)) + 1"
    by (simp add: c expectedIterationCall_def)
  show "conversation call = conversationOf pre"
    by (simp add: c expectedIterationCall_def)
  show "p_messages (params call) =
           buildSystemMessages S @ [initialUserMessage prompt] @ conversation call @
           (if at_iteration call > 1 then [continuationMessage] else [])"
    by (simp add: c expectedIterationCall_def fullParams_def outboundMessages_def)
qed


subsection \<open>The logs of complete runs\<close>

lemma loop_log:
  "wfTrace S prompt abortSignal (trace (fst (loop env S prompt abortSignal w)))"
  "currentMessages (fst (loop env S prompt abortSignal w)) =
     conversationOf (trace (fst (loop env S prompt abortSignal w)))"
proof -
  obtain s out where run: "loop env S prompt abortSignal w = (s, out)"
    by (cases "loop env S prompt abortSignal w")
  from run obtain c where "loopEnd S prompt abortSignal s c" by (rule loop_end)
  with run show "wfTrace S prompt abortSignal (trace (fst (loop env S prompt abortSignal w)))"
    "currentMessages (fst (loop env S prompt abortSignal w)) =
     conversationOf (trace (fst (loop env S prompt abortSignal w)))"
    by (simp_all add: loopEnd_def)
qed

lemma stream_done:
  assumes "stream env S prompt abortSignal w = (s, out)"
  shows "streamDone S prompt abortSignal s out"
  using assms streamFrom_done [OF streamInit_head] by (simp add: stream_def)

lemma stream_log:
  "wfTrace S prompt abortSignal (trace (fst (stream env S prompt abortSignal w)))"
  "currentMessages (fst (stream env S prompt abortSignal w)) =
     conversationOf (trace (fst (stream env S prompt abortSignal w)))"
proof -
  obtain s out where run: "stream env S prompt abortSignal w = (s, out)"
    by (cases "stream env S prompt abortSignal w")
  from stream_done [OF run] run
  show "wfTrace S prompt abortSignal (trace (fst (stream env S prompt abortSignal w)))"
    "currentMessages (fst (stream env S prompt abortSignal w)) =
     conversationOf (trace (fst (stream env S prompt abortSignal w)))"
    by (simp_all add: streamDone_def)
qed

lemma loopBody_appends:
  assumes body: "loopBody env S prompt abortSignal s = (s', c)"
  shows "\<exists>rs. allResults s' = allResults s @ rs"
proof (cases "isAborted env abortSignal (world s)")
  case True
  with body show ?thesis by (auto simp: loopBody_def)
next
  case na: False
  obtain s1 x where it: "iterate env S prompt abortSignal s = (s1, x)"
    by (cases "iterate env S prompt abortSignal s")
  show ?thesis
  proof (cases x)
    case (Inl e)
    with body na it have "s' = s1" by (simp add: loopBody_def)
    with iterate_Inl(2) [OF it [unfolded Inl]] show ?thesis by blast
  next
    case (Inr r)
    with body na it have lv: "loopVerify S prompt s1 r = (s', c)"
      by (simp add: loopBody_def)
    have "allResults s' = allResults s1"
      using lv by (cases rule: loopVerify_cases) simp_all
    with iterate_Inr(2) [OF it [unfolded Inr]] show ?thesis by simp
  qed
qed

subsection \<open>\<^verbatim>\<open>stream()\<close> returns when its collaborators do\<close>

lemma streamVerify_no_throw:
  assumes ok: "collaboratorsReturn env S"
    and sv: "streamVerify env S prompt abortSignal s r = (s', c)"
  shows "c \<noteq> Throw e"
proof (cases "verifyCompletion S")
  case None
  with sv show ?thesis by (simp add: streamVerify_def)
next
  case (Some verify)
  let ?ctx = "\<lparr>ctx_result = r, ctx_iteration = iteration s,
                ctx_allResults = allResults s, ctx_originalPrompt = prompt\<rparr>"
  from ok Some obtain v where "fst (verify ?ctx (world s)) = Inr v"
    unfolding collaboratorsReturn_def by blast
  then obtain w where vw: "verify ?ctx (world s) = (Inr v, w)"
    by (metis prod.collapse)
  let ?s1 = "s\<lparr>trace := trace s @ [VerifyCompletionCall (iteration s) v], world := w\<rparr>"
  from ok obtain h where
    "fst (streamText env (params (earlyCall S prompt abortSignal ?s1)) (world ?s1)) = Inr h"
    unfolding collaboratorsReturn_def by blast
  then obtain w' where st:
    "streamText env (params (earlyCall S prompt abortSignal ?s1)) (world ?s1) = (Inr h, w')"
    by (metis prod.collapse)
  from sv Some vw st show ?thesis
    by (auto simp: streamVerify_def Let_def split: if_splits)
qed

lemma streamBody_no_throw:
  assumes ok: "collaboratorsReturn env S"
    and body: "streamBody env S prompt abortSignal s = (s', c)"
  shows "c \<noteq> Throw e"
proof (cases "isAborted env abortSignal (world s)")
  case True
  with body show ?thesis by (simp add: streamBody_def)
next
  case False
  from ok have "\<exists>s1 r. iterate env S prompt abortSignal s = (s1, Inr r)"
    unfolding collaboratorsReturn_def by (intro iterate_returns) blast+
  then obtain s1 r where it: "iterate env S prompt abortSignal s = (s1, Inr r)" by blast
  with body False have "streamVerify env S prompt abortSignal s1 r = (s', c)"
    by (simp add: streamBody_def)
  with ok show ?thesis by (rule streamVerify_no_throw)
qed

lemma streamWhile_no_throw:
  assumes "collaboratorsReturn env S"
    and "streamWhile env S prompt abortSignal s = (s', c)"
  shows "c \<noteq> Throw e"
  using assms
proof (induction env S prompt abortSignal s rule: streamWhile.induct)
  case (1 env S prompt abortSignal s)
  show ?case
  proof (cases "iteration s < maxIterations S - 1")
    case False
    with "1.prems"(2) show ?thesis
      by (simp add: streamWhile_unfold [of env S prompt abortSignal s])
  next
    case True
    obtain s1 c1 where body: "streamBody env S prompt abortSignal s = (s1, c1)"
      by (cases "streamBody env S prompt abortSignal s")
    show ?thesis
    proof (cases "c1 = Next")
      case Next: True
      with True body "1.prems"(2)
      have "streamWhile env S prompt abortSignal s1 = (s', c)"
        by (simp add: streamWhile_unfold [of env S prompt abortSignal s])
      with "1.IH" [OF True body [symmetric] Next "1.prems"(1)] show ?thesis by blast
    next
      case False
      with True body "1.prems"(2) have "c = c1"
        by (cases c1; simp add: streamWhile_unfold [of env S prompt abortSignal s])
      with streamBody_no_throw [OF "1.prems"(1) body] show ?thesis by simp
    qed
  qed
qed

lemma streamFrom_returns:
  assumes ok: "collaboratorsReturn env S"
    and run: "streamFrom env S prompt abortSignal s = (s', out)"
  shows "\<exists>h. out = Returned h"
proof -
  obtain s1 c where w: "streamWhile env S prompt abortSignal s = (s1, c)"
    by (cases "streamWhile env S prompt abortSignal s")
  have nt: "\<And>e. c \<noteq> Throw e" using streamWhile_no_throw [OF ok w] .
  show ?thesis
  proof (cases "\<exists>h. c = Return h")
    case True
    with w run show ?thesis by (auto simp: streamFrom_def)
  next
    case False
    with nt w run have fin: "streamFinal env S prompt abortSignal s1 = (s', out)"
      by (cases c) (auto simp: streamFrom_def)
    from streamFinal_log(1) [OF fin] obtain x where
      x: "case x of Inl e \<Rightarrow> out = Threw e | Inr h \<Rightarrow> out = Returned h"
        "x = fst (streamText env (params (nextCall S prompt abortSignal s1)) (world s1))"
      by blast
    from ok obtain h where "x = Inr h"
      unfolding collaboratorsReturn_def x(2) by blast
    with x(1) show ?thesis by simp
  qed
qed

subsection \<open>\<^verbatim>\<open>stream()\<close> under cancellation\<close>

lemma streamFrom_step:
  assumes "streamStep env S prompt abortSignal s s'"
  shows "streamFrom env S prompt abortSignal s = streamFrom env S prompt abortSignal s'"
  using assms
  by (simp add: streamStep_def streamFrom_def streamWhile_unfold [of env S prompt abortSignal s])

lemma streamFrom_steps:
  assumes "(streamStep env S prompt abortSignal)\<^sup>*\<^sup>* s s'"
  shows "streamFrom env S prompt abortSignal s = streamFrom env S prompt abortSignal s'"
  using assms
proof (induction rule: rtranclp_induct)
  case base
  show ?case by (rule refl)
next
  case (step y z)
  from step.IH streamFrom_step [OF step.hyps(2)] show ?case by (rule trans)
qed

lemma streamWhile_aborted:
  assumes ab: "isAborted env abortSignal (world s)"
  shows "streamWhile env S prompt abortSignal s = (s, Break)"
proof -
  have "streamBody env S prompt abortSignal s = (s, Break)"
    using ab by (simp add: streamBody_def)
  then show ?thesis
    by (subst streamWhile_eval) (simp add: Let_def)
qed

lemma streamFrom_aborted:
  assumes ab: "isAborted env abortSignal (world s)"
  shows "streamFrom env S prompt abortSignal s =
     (case streamText env (params (nextCall S prompt abortSignal s)) (world s) of
        (x, w') \<Rightarrow>
          (s\<lparr>iteration := iteration s + 1,
             trace := trace s @ [StreamTextCall FinalIteration (nextCall S prompt abortSignal s) x],
             world := w'\<rparr>,
           case x of Inl e \<Rightarrow> Threw e | Inr h \<Rightarrow> Returned h))"
proof -
  obtain x w' where st:
    "streamText env (params (nextCall S prompt abortSignal s)) (world s) = (x, w')"
    by (cases "streamText env (params (nextCall S prompt abortSignal s)) (world s)")
  have fin: "streamFinal env S prompt abortSignal s =
      (s\<lparr>iteration := iteration s + 1,
             trace := trace s @ [StreamTextCall FinalIteration (nextCall S prompt abortSignal s) x],
             world := w'\<rparr>,
           case x of Inl e \<Rightarrow> Threw e | Inr h \<Rightarrow> Returned h)"
    using st by (cases x) (simp_all add: streamFinal_def Let_def nextCall_def)
  show ?thesis
    by (simp add: streamFrom_def streamWhile_aborted [OF ab] fin st)
qed

section \<open>The claims\<close>

text \<open>
  C1.  The claim: for every iteration budget \<open>N \<ge> 1\<close>, a blocking \<^verbatim>\<open>loop()\<close> invocation
  configured with no verification predicate performs exactly \<open>N\<close> engine calls and returns a
  result with \<^verbatim>\<open>completionReason = "max-iterations"\<close>, assuming no cancellation is signaled
  and every engine call succeeds.  The lifecycle callbacks are awaited inside the loop
  (lines 173 and 227) and nothing catches what they throw.  With budget 3, no predicate, no
  abort signal and an engine that always succeeds, an \<^verbatim>\<open>onIterationStart\<close> that throws at
  iteration 2 ends the invocation with that exception after one engine call:
\<close>

theorem loop_callback_throws_counterexample:
  "verifyCompletion failingStartSettings = None
   \<and> maxIterations failingStartSettings = 3
   \<and> (\<forall>w. \<not> isAborted (testEnvironment (\<lambda>w. False)) None w)
   \<and> (\<forall>p w. \<exists>r. fst (generateText (testEnvironment (\<lambda>w. False)) p w) = Inr r)
   \<and> snd (loop (testEnvironment (\<lambda>w. False)) failingStartSettings ''Summarize X'' None 0)
       = Threw (Thrown ''start failed'')
   \<and> length (engineCalls (trace (fst
         (loop (testEnvironment (\<lambda>w. False)) failingStartSettings ''Summarize X'' None 0)))) = 1"
  by (simp add: run_defs failingStartSettings_def failingStart_def)

text \<open>
  C1, amended.  For every iteration budget \<open>N \<ge> 1\<close>, a blocking \<^verbatim>\<open>loop()\<close> invocation
  configured with no verification predicate performs exactly \<open>N\<close> engine calls and returns a
  result with \<^verbatim>\<open>completionReason = "max-iterations"\<close> and \<^verbatim>\<open>iterations = N\<close>, when no
  cancellation is signaled, every engine call succeeds, and the lifecycle callbacks
  \<^verbatim>\<open>onIterationStart\<close> and \<^verbatim>\<open>onIterationEnd\<close>, where configured, do not throw.
\<close>

theorem loop_without_verification:
  assumes "verifyCompletion S = None"
    and "1 \<le> maxIterations S"
    and "\<And>w. \<not> isAborted env abortSignal w"
    and "\<And>p w. \<exists>r. fst (generateText env p w) = Inr r"
    and "\<And>i w. fst (callOnIterationStart S i w) = Inr ()"
    and "\<And>i d r w. fst (callOnIterationEnd S i d r w) = Inr ()"
  shows "\<exists>s r. loop env S prompt abortSignal w = (s, Returned r)
           \<and> res_completionReason r = MaxIterations
           \<and> res_iterations r = maxIterations S
           \<and> int (length (engineCalls (trace s))) = maxIterations S"
proof -
  have le: "iteration (loopInit w) \<le> maxIterations S"
    using assms(2) by (simp add: loopInit_def)
  obtain s where w: "loopWhile env S prompt abortSignal (loopInit w) = (s, Break)"
    and s: "iteration s = maxIterations S" "completionReason s = completionReason (loopInit w)"
      "int (length (engineCalls (trace s))) =
         int (length (engineCalls (trace (loopInit w)))) + (maxIterations S - iteration (loopInit w))"
      "iteration (loopInit w) < maxIterations S \<longrightarrow> allResults s \<noteq> []"
    using loopWhile_budget [OF assms(1) assms(3-6) le, of prompt] by blast
  have ne: "allResults s \<noteq> []"
    using s(4) assms(2) by (simp add: loopInit_def)
  then obtain r0 rs where rs: "allResults s = r0 # rs"
    by (cases "allResults s") auto
  show ?thesis
    using w s(1-3) rs by (simp add: loop_def loopFinish_def loopInit_def Let_def)
qed

theorem loop_without_verification_witness:
  "maxIterations (testSettings 3 None) = 3 \<and>
   (\<exists>s r. loop (testEnvironment (\<lambda>w. False)) (testSettings 3 None) ''Summarize X'' None 0
             = (s, Returned r)
      \<and> res_completionReason r = MaxIterations
      \<and> res_iterations r = 3
      \<and> length (engineCalls (trace s)) = 3)"
proof -
  let ?S = "testSettings 3 None" and ?env = "testEnvironment (\<lambda>w. False)"
  have h1: "verifyCompletion ?S = None" by (simp add: testSettings_def)
  have h2: "1 \<le> maxIterations ?S" by (simp add: testSettings_def maxIterations_def)
  have h3: "\<And>w. \<not> isAborted ?env None w" by (simp add: isAborted_def)
  have h4: "\<And>p w. \<exists>r. fst (generateText ?env p w) = Inr r" by (simp add: testEnvironment_def)
  have h5: "\<And>i w. fst (callOnIterationStart ?S i w) = Inr ()"
    by (simp add: callOnIterationStart_def testSettings_def)
  have h6: "\<And>i d r w. fst (callOnIterationEnd ?S i d r w) = Inr ()"
    by (simp add: callOnIterationEnd_def testSettings_def)
  have n: "maxIterations ?S = 3" by (simp add: testSettings_def maxIterations_def)
  show ?thesis
    using loop_without_verification [OF h1 h2 h3 h4 h5 h6, of "''Summarize X''" 0] n by simp
qed

text \<open>
  C2.  If the verification predicate answers \<^verbatim>\<open>complete: true\<close> on iteration \<open>k\<close> of a
  blocking \<^verbatim>\<open>loop()\<close> invocation, the loop ends at once, whatever budget remains: the
  answer is the last entry of the log, exactly \<open>k\<close> engine calls were made, and the result
  has \<^verbatim>\<open>completionReason = "verified"\<close>, \<^verbatim>\<open>iterations = k\<close> and the reason the predicate
  gave.
\<close>

theorem loop_verified:
  assumes run: "loop env S prompt abortSignal w = (s, out)"
    and ev: "VerifyCompletionCall k v \<in> set (trace s)"
    and v: "complete v"
  shows "\<exists>r. out = Returned r
           \<and> res_completionReason r = Verified
           \<and> res_iterations r = k
           \<and> res_reason r = vc_reason v
           \<and> int (length (engineCalls (trace s))) = k
           \<and> last (trace s) = VerifyCompletionCall k v"
proof -
  from run obtain c where e: "loopEnd S prompt abortSignal s c"
    and out: "out = (case c of Throw e \<Rightarrow> Threw e | _ \<Rightarrow> loopFinish s)"
    by (rule loop_end)
  from e ev v have c: "c = Break" and fields: "completionReason s = Verified"
    "reason s = vc_reason v" "k = iteration s" and l: "last (trace s) = VerifyCompletionCall k v"
    unfolding loopEnd_def by blast+
  from e c have n: "iteration s = int (length (blockingCalls (trace s)))"
    "length (allResults s) = length (blockingCalls (trace s))"
    "streamingCalls (trace s) = []" and wf: "wfTrace S prompt abortSignal (trace s)"
    unfolding loopEnd_def by blast+
  from ev have "trace s \<noteq> []" by auto
  with l obtain pre where pre: "trace s = pre @ [VerifyCompletionCall k v]"
    by (metis append_butlast_last_id)
  from wf pre have "pre \<noteq> []" "isCompletedCall (last pre)" by simp_all
  then have "blockingCalls pre \<noteq> []" by (rule completed_call_counts)
  with pre n have ne: "allResults s \<noteq> []" by auto
  have calls: "int (length (engineCalls (trace s))) = k"
    using n fields by (simp add: engineCalls_no_streaming)
  show ?thesis
    using out c fields l calls by (simp add: loopFinish_Returned [OF ne])
qed

theorem loop_verified_witness:
  "\<exists>s r. loop (testEnvironment (\<lambda>w. False)) (testSettings 5 (Some (verifyFrom 2)))
            ''Summarize X'' None 0 = (s, Returned r)
     \<and> VerifyCompletionCall 2 \<lparr>complete = True, vc_reason = Some ''done''\<rparr> \<in> set (trace s)
     \<and> res_completionReason r = Verified \<and> res_iterations r = 2
     \<and> res_reason r = Some ''done''
     \<and> length (engineCalls (trace s)) = 2"
proof -
  let ?v = "\<lparr>complete = True, vc_reason = Some ''done''\<rparr>"
  obtain s out where run: "loop (testEnvironment (\<lambda>w. False))
      (testSettings 5 (Some (verifyFrom 2))) ''Summarize X'' None 0 = (s, out)"
    by (cases "loop (testEnvironment (\<lambda>w. False))
      (testSettings 5 (Some (verifyFrom 2))) ''Summarize X'' None 0")
  have ev: "VerifyCompletionCall 2 ?v \<in> set (trace s)"
    using run by (auto simp: run_defs)
  have v: "complete ?v" by simp
  from loop_verified [OF run ev v] obtain r where r: "out = Returned r"
    "res_completionReason r = Verified" "res_iterations r = 2" "res_reason r = vc_reason ?v"
    "int (length (engineCalls (trace s))) = 2"
    by (elim exE conjE)
  from run r ev show ?thesis by simp
qed

text \<open>
  C3.  The claim: with cancellation signaled before any iteration starts, \<^verbatim>\<open>loop()\<close> makes
  no engine call and returns a result with \<^verbatim>\<open>completionReason = "aborted"\<close>.  The code makes
  no engine call and sets \<^verbatim>\<open>completionReason\<close> to \<^verbatim>\<open>'aborted'\<close>, but then reads
  \<^verbatim>\<open>finalResult.text\<close> of the missing last record and raises a \<^verbatim>\<open>TypeError\<close>: no result is
  returned.  The run below has budget 3 and an abort signal that is set from the start.
\<close>

theorem loop_pre_aborted_throws:
  "loop (testEnvironment (\<lambda>w. True)) (testSettings 3 None) ''Summarize X'' (Some 0) 0 =
     ((loopInit 0)\<lparr>completionReason := Aborted\<rparr>, Threw TypeError)
   \<and> engineCalls (trace ((loopInit 0 :: int loop_locals)\<lparr>completionReason := Aborted\<rparr>)) = []"
  by (simp add: run_defs)

text \<open>
  C9.  Whenever \<^verbatim>\<open>loop()\<close> returns a result, its \<^verbatim>\<open>iterations\<close> field equals the length
  of \<^verbatim>\<open>allResults\<close> (which is not empty), and its \<^verbatim>\<open>result\<close> field is the last element of
  \<^verbatim>\<open>allResults\<close>.
\<close>

theorem loop_result_counts:
  assumes run: "loop env S prompt abortSignal w = (s, Returned r)"
  shows "res_iterations r = int (length (res_allResults r))
       \<and> res_allResults r \<noteq> []
       \<and> res_result r = last (res_allResults r)
       \<and> res_allResults r = allResults s"
proof -
  from run obtain c where e: "loopEnd S prompt abortSignal s c"
    and out: "Returned r = (case c of Throw e \<Rightarrow> Threw e | _ \<Rightarrow> loopFinish s)"
    by (rule loop_end)
  from e out have c: "c = Break" by (auto simp: loopEnd_def)
  with out have fin: "loopFinish s = Returned r" by simp
  from e c have n: "iteration s = int (length (allResults s))"
    by (auto simp: loopEnd_def)
  from fin n show ?thesis
    by (auto simp: loopFinish_Returned_iff)
qed

theorem loop_result_counts_witness:
  "\<exists>s r. loop (testEnvironment (\<lambda>w. 2 \<le> w)) (testSettings 5 None) ''Summarize X'' (Some 0) 0
            = (s, Returned r)
     \<and> res_completionReason r = Aborted
     \<and> res_iterations r = 2 \<and> length (res_allResults r) = 2
     \<and> res_result r = testResult 1"
proof -
  let ?run = "loop (testEnvironment (\<lambda>w. 2 \<le> w)) (testSettings 5 None) ''Summarize X'' (Some 0) 0"
  have "\<exists>s r. ?run = (s, Returned r) \<and> res_completionReason r = Aborted
      \<and> last (res_allResults r) = testResult 1 \<and> res_iterations r = 2"
    by (simp add: run_defs)
  then obtain s r where run: "?run = (s, Returned r)" and a: "res_completionReason r = Aborted"
    and l: "last (res_allResults r) = testResult 1" and i: "res_iterations r = 2"
    by blast
  from loop_result_counts [OF run] a l i run show ?thesis by auto
qed

text \<open>
  C5.  In blocking mode \<^verbatim>\<open>allResults\<close> has exactly one record per completed engine call.
  After every pass through the loop body (from any locals \<open>s\<close> that the invocation reaches at
  the head of the loop) \<^verbatim>\<open>allResults\<close> is the list of the records of the completed calls in
  the order of the log, it extends the list before the pass, and unless the pass threw its
  length is the number of engine calls made.  The same holds when \<^verbatim>\<open>loop()\<close> ends; in a
  returned result, index 0 holds the record of the first entry of the log, the engine call of
  iteration 1.
\<close>

theorem allResults_one_record_per_call:
  "((loopStep env S prompt abortSignal)\<^sup>*\<^sup>* (loopInit w) s \<and>
    loopBody env S prompt abortSignal s = (s', c) \<longrightarrow>
      allResults s' = completedResults (trace s') \<and>
      (\<exists>rs. allResults s' = allResults s @ rs) \<and>
      ((\<forall>e. c \<noteq> Throw e) \<longrightarrow> length (allResults s') = length (engineCalls (trace s'))))
   \<and> (loop env S prompt abortSignal w = (t, out) \<longrightarrow>
      allResults t = completedResults (trace t) \<and>
      (\<forall>r. out = Returned r \<longrightarrow>
         res_allResults r = allResults t \<and>
         length (res_allResults r) = length (engineCalls (trace t)) \<and>
         (\<exists>call rest. trace t = GenerateTextCall call (Inr (res_allResults r ! 0)) # rest
            \<and> at_iteration call = 1)))"
proof (rule conjI)
  show "(loopStep env S prompt abortSignal)\<^sup>*\<^sup>* (loopInit w) s \<and>
    loopBody env S prompt abortSignal s = (s', c) \<longrightarrow>
      allResults s' = completedResults (trace s') \<and>
      (\<exists>rs. allResults s' = allResults s @ rs) \<and>
      ((\<forall>e. c \<noteq> Throw e) \<longrightarrow> length (allResults s') = length (engineCalls (trace s')))"
  proof (rule impI)
    assume a: "(loopStep env S prompt abortSignal)\<^sup>*\<^sup>* (loopInit w) s \<and>
      loopBody env S prompt abortSignal s = (s', c)"
    then have body: "loopBody env S prompt abortSignal s = (s', c)" by (rule conjunct2)
    from a have head: "loopHead S prompt abortSignal s"
      by (intro loopStep_head [of env]) (rule conjunct1)
    have after: "allResults s' = completedResults (trace s') \<and>
        ((\<forall>e. c \<noteq> Throw e) \<longrightarrow> length (allResults s') = length (engineCalls (trace s')))"
    proof (cases "c = Next")
      case True
      with loopBody_head [OF head] body have "loopHead S prompt abortSignal s'" by simp
      then show ?thesis
        by (auto simp: loopHead_def headInv_def engineCalls_no_streaming)
    next
      case False
      from loopBody_end [OF head body False] show ?thesis
        by (auto simp: loopEnd_def engineCalls_no_streaming)
    qed
    from after loopBody_appends [OF body]
    show "allResults s' = completedResults (trace s') \<and>
      (\<exists>rs. allResults s' = allResults s @ rs) \<and>
      ((\<forall>e. c \<noteq> Throw e) \<longrightarrow> length (allResults s') = length (engineCalls (trace s')))"
      by blast
  qed
next
  show "loop env S prompt abortSignal w = (t, out) \<longrightarrow>
      allResults t = completedResults (trace t) \<and>
      (\<forall>r. out = Returned r \<longrightarrow>
         res_allResults r = allResults t \<and>
         length (res_allResults r) = length (engineCalls (trace t)) \<and>
         (\<exists>call rest. trace t = GenerateTextCall call (Inr (res_allResults r ! 0)) # rest
            \<and> at_iteration call = 1))"
  proof (intro impI conjI allI)
    assume run: "loop env S prompt abortSignal w = (t, out)"
    from run obtain c where e: "loopEnd S prompt abortSignal t c" by (rule loop_end)
    then show "allResults t = completedResults (trace t)" by (simp add: loopEnd_def)
  next
    fix r
    assume run: "loop env S prompt abortSignal w = (t, out)" and r: "out = Returned r"
    from run obtain c where e: "loopEnd S prompt abortSignal t c"
      and out: "out = (case c of Throw e \<Rightarrow> Threw e | _ \<Rightarrow> loopFinish t)"
      by (rule loop_end)
    from r e out have c: "c = Break" by (auto simp: loopEnd_def)
    with out r have fin: "loopFinish t = Returned r" by simp
    then have ne: "allResults t \<noteq> []" and all: "res_allResults r = allResults t"
      by (auto simp: loopFinish_Returned_iff)
    from e c have facts: "wfTrace S prompt abortSignal (trace t)"
      "allResults t = completedResults (trace t)" "streamingCalls (trace t) = []"
      "length (allResults t) = length (blockingCalls (trace t))"
      by (auto simp: loopEnd_def)
    from wf_first_record [OF facts(1) facts(3)] facts(2,4) ne
    have first: "\<exists>call rest. trace t = GenerateTextCall call (Inr (allResults t ! 0)) # rest
           \<and> at_iteration call = 1"
      by simp
    show "res_allResults r = allResults t" by (rule all)
    show "length (res_allResults r) = length (engineCalls (trace t))"
      using all facts(3,4) by (simp add: engineCalls_no_streaming)
    show "\<exists>call rest. trace t = GenerateTextCall call (Inr (res_allResults r ! 0)) # rest
            \<and> at_iteration call = 1"
      using first all by simp
  qed
qed

theorem allResults_one_record_per_call_witness:
  "\<exists>s1 s2 c2 t r.
     loopBody (testEnvironment (\<lambda>w. False)) (testSettings 3 None) ''Summarize X'' None (loopInit 0)
       = (s1, Next)
     \<and> loopBody (testEnvironment (\<lambda>w. False)) (testSettings 3 None) ''Summarize X'' None s1
       = (s2, c2)
     \<and> allResults s2 = [testResult 0, testResult 1]
     \<and> length (engineCalls (trace s2)) = 2
     \<and> loop (testEnvironment (\<lambda>w. False)) (testSettings 3 None) ''Summarize X'' None 0
       = (t, Returned r)
     \<and> res_allResults r = [testResult 0, testResult 1, testResult 2]
     \<and> length (engineCalls (trace t)) = 3"
proof -
  let ?E = "testEnvironment (\<lambda>w. False)" and ?S = "testSettings 3 None"
  obtain s1 c1 where b1: "loopBody ?E ?S ''Summarize X'' None (loopInit 0) = (s1, c1)"
    by (cases "loopBody ?E ?S ''Summarize X'' None (loopInit 0)")
  obtain s2 c2 where b2: "loopBody ?E ?S ''Summarize X'' None s1 = (s2, c2)"
    by (cases "loopBody ?E ?S ''Summarize X'' None s1")
  obtain t out where run: "loop ?E ?S ''Summarize X'' None 0 = (t, out)"
    by (cases "loop ?E ?S ''Summarize X'' None 0")
  have c1: "c1 = Next" using b1 by (auto simp: run_defs)
  have step: "loopStep ?E ?S ''Summarize X'' None (loopInit 0) s1"
    using b1 c1 by (simp add: loopStep_def maxIterations_def testSettings_def loopInit_def)
  then have reach: "(loopStep ?E ?S ''Summarize X'' None)\<^sup>*\<^sup>* (loopInit 0) s1"
    by (rule r_into_rtranclp)
  have c2: "\<forall>e. c2 \<noteq> Throw e" and a2: "allResults s2 = [testResult 0, testResult 1]"
    using b1 b2 by (auto simp: run_defs)
  have "\<exists>r. out = Returned r \<and> res_allResults r = [testResult 0, testResult 1, testResult 2]"
    using run by (auto simp: run_defs)
  then obtain r where r: "out = Returned r"
    "res_allResults r = [testResult 0, testResult 1, testResult 2]"
    by (elim exE conjE)
  note inst = allResults_one_record_per_call
    [of ?E ?S "''Summarize X''" None 0 s1 s2 c2 t out]
  from inst [THEN conjunct1, THEN mp, OF conjI [OF reach b2]] c2
  have l2: "length (allResults s2) = length (engineCalls (trace s2))"
    by blast
  from inst [THEN conjunct2, THEN mp, OF run] r(1)
  have l3: "length (res_allResults r) = length (engineCalls (trace t))"
    by blast
  from b1 c1 b2 a2 l2 run r l3 show ?thesis by simp
qed



text \<open>
  C7.  For every iteration of a \<^verbatim>\<open>loop()\<close> or \<^verbatim>\<open>stream()\<close> invocation (every blocking
  engine call, and the streamed call of the final iteration), the message list sent to the
  engine is the system messages, then the user message holding the original prompt, then the
  conversation accumulated so far, and then, exactly when the iteration number is greater
  than 1, the user message with the single text part
  \<^verbatim>\<open>Continue working on the task. The previous attempt was not complete.\<close>  The iteration
  number is one more than the number of blocking calls before.

  The \<^verbatim>\<open>streamText\<close> call after a successful verification (lines 364-373) is an
  additional call, made after the call of its iteration and right after the predicate's
  answer: its message list is the system messages, the original prompt and the conversation
  accumulated so far, and never a directive.
\<close>

theorem outbound_messages_of_iteration:
  assumes run: "tr = trace (fst (loop env S prompt abortSignal w))
              \<or> tr = trace (fst (stream env S prompt abortSignal w))"
    and log: "tr = pre @ ev # post"
  shows "(ev = GenerateTextCall call out \<or> ev = StreamTextCall FinalIteration call out' \<longrightarrow>
            at_iteration call = int (length (blockingCalls pre)) + 1
          \<and> conversation call = conversationOf pre
          \<and> p_messages (params call) =
              buildSystemMessages S @
              [\<lparr>role = User, content = PartsContent [TextPart prompt]\<rparr>] @
              conversation call @
              (if at_iteration call > 1
               then [\<lparr>role = User,
                 content = PartsContent
                   [TextPart ''Continue working on the task. The previous attempt was not complete.'']\<rparr>]
               else []))
       \<and> (ev = StreamTextCall EarlyCompletion call out' \<longrightarrow>
            at_iteration call = int (length (blockingCalls pre))
          \<and> pre \<noteq> [] \<and> isSuccessfulVerification (last pre)
          \<and> conversation call = conversationOf pre
          \<and> p_messages (params call) =
              buildSystemMessages S @
              [\<lparr>role = User, content = PartsContent [TextPart prompt]\<rparr>] @
              conversation call)"
proof -
  from run have a: "wfTrace S prompt abortSignal tr"
    using loop_log(1) [where env = env and S = S and prompt = prompt and abortSignal = abortSignal and w = w]
      stream_log(1) [where env = env and S = S and prompt = prompt and abortSignal = abortSignal and w = w]
    by auto
  note wf = a [unfolded log]
  have it: "at_iteration call = int (length (blockingCalls pre)) + 1
          \<and> conversation call = conversationOf pre
          \<and> p_messages (params call) =
              buildSystemMessages S @ [initialUserMessage prompt] @ conversation call @
              (if at_iteration call > 1 then [continuationMessage] else [])"
    if ev: "ev = GenerateTextCall call out \<or> ev = StreamTextCall FinalIteration call out'"
    using wf_outbound [OF wf ev] by simp
  have early: "at_iteration call = int (length (blockingCalls pre))
          \<and> pre \<noteq> [] \<and> isSuccessfulVerification (last pre)
          \<and> conversation call = conversationOf pre
          \<and> p_messages (params call) =
              buildSystemMessages S @ [initialUserMessage prompt] @ conversation call"
    if ev: "ev = StreamTextCall EarlyCompletion call out'"
  proof -
    from wf have "okEvent S prompt abortSignal pre ev" by (rule wfTrace_event)
    with ev show ?thesis
      by (simp add: expectedEarlyCall_def earlyParams_def)
  qed
  from it early show ?thesis
    unfolding initialUserMessage_def continuationMessage_def by blast
qed

theorem outbound_messages_of_iteration_witness:
  "\<exists>call out call' out'.
     verifiedStreamLog ! 2 = GenerateTextCall call out
     \<and> at_iteration call = 2
     \<and> p_messages (params call) =
          buildSystemMessages (testSettings 4 (Some (verifyFrom 2))) @
          [\<lparr>role = User, content = PartsContent [TextPart ''Summarize X'']\<rparr>] @
          conversation call @
          [\<lparr>role = User,
                 content = PartsContent
                   [TextPart ''Continue working on the task. The previous attempt was not complete.'']\<rparr>]
     \<and> verifiedStreamLog ! 4 = StreamTextCall EarlyCompletion call' out'
     \<and> at_iteration call' = 2
     \<and> p_messages (params call') =
          buildSystemMessages (testSettings 4 (Some (verifyFrom 2))) @
          [\<lparr>role = User, content = PartsContent [TextPart ''Summarize X'']\<rparr>] @
          conversation call'"
proof -
  let ?E = "testEnvironment (\<lambda>w. False)" and ?S = "testSettings 4 (Some (verifyFrom 2))"
  let ?tr = verifiedStreamLog
  have len: "length ?tr = 5" unfolding verifiedStreamLog_def by (simp add: run_defs)
  have "\<exists>call out. ?tr ! 2 = GenerateTextCall call out"
    unfolding verifiedStreamLog_def by (simp add: run_defs)
  then obtain call out where ev: "?tr ! 2 = GenerateTextCall call out"
    by (elim exE)
  have "\<exists>call' out'. ?tr ! 4 = StreamTextCall EarlyCompletion call' out'"
    unfolding verifiedStreamLog_def by (simp add: run_defs)
  then obtain call' out' where ev': "?tr ! 4 = StreamTextCall EarlyCompletion call' out'"
    by (elim exE)
  have nb: "length (blockingCalls (take 2 ?tr)) = 1"
    unfolding verifiedStreamLog_def by (simp add: run_defs)
  have nb': "length (blockingCalls (take 4 ?tr)) = 2"
    unfolding verifiedStreamLog_def by (simp add: run_defs)
  have "?tr = take 2 ?tr @ ?tr ! 2 # drop (Suc 2) ?tr"
    by (rule id_take_nth_drop) (simp add: len)
  then have log: "?tr = take 2 ?tr @ GenerateTextCall call out # drop (Suc 2) ?tr"
    unfolding ev .
  have "?tr = take 4 ?tr @ ?tr ! 4 # drop (Suc 4) ?tr"
    by (rule id_take_nth_drop) (simp add: len)
  then have log': "?tr = take 4 ?tr @ StreamTextCall EarlyCompletion call' out' # drop (Suc 4) ?tr"
    unfolding ev' .
  have run: "?tr = trace (fst (loop ?E ?S ''Summarize X'' None 0))
           \<or> ?tr = trace (fst (stream ?E ?S ''Summarize X'' None 0))"
    by (simp add: verifiedStreamLog_def)
  note a = outbound_messages_of_iteration [OF run log, of call out undefined,
      THEN conjunct1, THEN mp, OF disjI1 [OF refl]]
  note b = outbound_messages_of_iteration [OF run log', of call' undefined out',
      THEN conjunct2, THEN mp, OF refl]
  from a nb have a': "at_iteration call = 2"
    "p_messages (params call) =
          buildSystemMessages ?S @ [\<lparr>role = User, content = PartsContent [TextPart ''Summarize X'']\<rparr>] @
          conversation call @ [\<lparr>role = User,
                 content = PartsContent
                   [TextPart ''Continue working on the task. The previous attempt was not complete.'']\<rparr>]"
    by simp_all
  from b nb' have b': "at_iteration call' = 2"
    "p_messages (params call') =
          buildSystemMessages ?S @ [\<lparr>role = User, content = PartsContent [TextPart ''Summarize X'']\<rparr>] @
          conversation call'"
    by simp_all
  from ev a' ev' b' show ?thesis by blast
qed

text \<open>
  C4.  The claim: for every budget \<open>N\<close>, a \<^verbatim>\<open>stream()\<close> invocation makes at most \<open>N - 1\<close>
  blocking engine calls before issuing exactly one streaming engine call, whose content is
  never appended to \<^verbatim>\<open>allResults\<close> or to the conversation state.  With budget 0 the bound
  \<open>N - 1\<close> is \<open>-1\<close>, and \<^verbatim>\<open>stream()\<close> still issues its streaming call after no blocking
  call at all:
\<close>

theorem stream_budget_zero_counterexample:
  "maxIterations (testSettings 0 None) = 0
   \<and> \<not> int (length (blockingCalls (trace (fst (stream (testEnvironment (\<lambda>w. False))
         (testSettings 0 None) ''Summarize X'' None 0)))))
        \<le> maxIterations (testSettings 0 None) - 1
   \<and> length (streamingCalls (trace (fst (stream (testEnvironment (\<lambda>w. False))
         (testSettings 0 None) ''Summarize X'' None 0)))) = 1"
  by (simp add: run_defs)

text \<open>
  C4, amended.  For every budget \<open>N\<close>, a \<^verbatim>\<open>stream()\<close> invocation makes at most
  \<open>max (N - 1) 0\<close> blocking engine calls and at most one streaming engine call, and
  \<^verbatim>\<open>allResults\<close> holds the records of the completed blocking calls only.  When it returns a
  handle, that handle is the answer to the last entry of the log, the only streaming call;
  \<^verbatim>\<open>allResults\<close> and the conversation state are what they were when that call was built.
  When no collaborator throws, it does return a handle.
\<close>

theorem stream_blocking_calls_bounded:
  assumes run: "stream env S prompt abortSignal w = (s, out)"
  shows "int (length (blockingCalls (trace s))) \<le> max 0 (maxIterations S - 1)
       \<and> length (streamingCalls (trace s)) \<le> 1
       \<and> allResults s = completedResults (trace s)
       \<and> (\<forall>h. out = Returned h \<longrightarrow>
            (\<exists>tr site call. trace s = tr @ [StreamTextCall site call (Inr h)]
               \<and> streamingCalls tr = []
               \<and> allResults s = completedResults tr
               \<and> currentMessages s = conversation call))
       \<and> (collaboratorsReturn env S \<longrightarrow> (\<exists>h. out = Returned h))"
proof -
  from stream_done [OF run] have d: "streamDone S prompt abortSignal s out" .
  then have a: "int (length (blockingCalls (trace s))) \<le> max 0 (maxIterations S - 1)"
    and b: "length (streamingCalls (trace s)) \<le> 1"
    and c: "allResults s = completedResults (trace s)"
    and cur: "currentMessages s = conversationOf (trace s)"
    and wf: "wfTrace S prompt abortSignal (trace s)"
    by (auto simp: streamDone_def)
  have e: "\<exists>tr site call. trace s = tr @ [StreamTextCall site call (Inr h)]
               \<and> streamingCalls tr = []
               \<and> allResults s = completedResults tr
               \<and> currentMessages s = conversation call" if h: "out = Returned h" for h
  proof -
    from d h obtain tr site call where tr: "trace s = tr @ [StreamTextCall site call (Inr h)]"
      and ns: "streamingCalls tr = []"
      unfolding streamDone_def by blast
    from wf tr have ok: "okEvent S prompt abortSignal tr (StreamTextCall site call (Inr h))"
      by simp
    then have "conversation call = conversationOf tr"
      by (cases site) (simp_all add: expectedIterationCall_def expectedEarlyCall_def)
    with tr ns c cur show ?thesis by simp
  qed
  have f: "\<exists>h. out = Returned h" if "collaboratorsReturn env S"
    using streamFrom_returns [OF that] run by (simp add: stream_def)
  from a b c e f show ?thesis by blast
qed

theorem stream_blocking_calls_bounded_witness:
  "collaboratorsReturn (testEnvironment (\<lambda>w. False)) (testSettings 4 (Some (verifyFrom 2)))
   \<and> (\<exists>s. stream (testEnvironment (\<lambda>w. False)) (testSettings 4 (Some (verifyFrom 2)))
          ''Summarize X'' None 0 = (s, Returned (StreamHandle 2))
     \<and> length (blockingCalls (trace s)) = 2
     \<and> int (length (blockingCalls (trace s)))
          \<le> max 0 (maxIterations (testSettings 4 (Some (verifyFrom 2))) - 1)
     \<and> length (streamingCalls (trace s)) \<le> 1
     \<and> allResults s = completedResults (trace s))"
proof -
  let ?E = "testEnvironment (\<lambda>w. False)" and ?S = "testSettings 4 (Some (verifyFrom 2))"
  have ok: "collaboratorsReturn ?E ?S"
    by (simp add: collaboratorsReturn_def testEnvironment_def testSettings_def
        callOnIterationStart_def callOnIterationEnd_def verifyFrom_def)
  obtain s out where run: "stream ?E ?S ''Summarize X'' None 0 = (s, out)"
    by (cases "stream ?E ?S ''Summarize X'' None 0")
  note inst = stream_blocking_calls_bounded [OF run]
  from inst [THEN conjunct2, THEN conjunct2, THEN conjunct2, THEN conjunct2, THEN mp, OF ok]
  have returns: "\<exists>h. out = Returned h" .
  have out: "out = Returned (StreamHandle 2)" and n: "length (blockingCalls (trace s)) = 2"
    using run by (auto simp: run_defs)
  note bounds = inst [THEN conjunct1] inst [THEN conjunct2, THEN conjunct1]
    inst [THEN conjunct2, THEN conjunct2, THEN conjunct1]
  from ok run out n bounds show ?thesis by simp
qed

text \<open>
  C8.  The claim: every streaming engine call made by \<^verbatim>\<open>stream()\<close> receives the same
  inputs as a blocking engine call except the engine's internal step budget, which is not
  supplied to the streaming call.  Both \<^verbatim>\<open>streamText\<close> call sites pass
  \<^verbatim>\<open>stopWhen: this.settings.toolStopWhen ?? stepCountIs(20)\<close>; with budget 1 and default
  settings the one streaming call carries the step budget of 20:
\<close>

theorem streaming_call_step_budget_counterexample:
  "map p_stopWhen (streamedParams (trace (fst (stream (testEnvironment (\<lambda>w. False))
      (testSettings 1 None) ''Summarize X'' None 0)))) = [Some (StepCountIs 20)]"
  by (simp add: run_defs streamedParams_def fullParams_def testSettings_def)

text \<open>
  C8, amended.  Every streaming engine call made by \<^verbatim>\<open>stream()\<close> receives the engine's
  internal step budget, exactly as a blocking call does (\<^verbatim>\<open>toolStopWhen\<close>, or 20 steps by
  default), together with the agent's model, tools, tool choice, output-token limit and
  temperature and the caller's abort signal; the streaming call of the final iteration
  receives exactly the inputs of a blocking engine call, which it also does for every
  blocking call of the invocation.
\<close>

theorem streaming_call_inputs:
  assumes run: "stream env S prompt abortSignal w = (s, out)"
    and ev: "StreamTextCall site call x \<in> set (trace s)"
  shows "p_stopWhen (params call) = Some (case toolStopWhen S of None \<Rightarrow> StepCountIs 20 | Some c \<Rightarrow> c)
       \<and> p_model (params call) = model S
       \<and> p_tools (params call) = tools S
       \<and> p_toolChoice (params call) = toolChoice S
       \<and> p_maxOutputTokens (params call) = maxOutputTokens S
       \<and> p_temperature (params call) = temperature S
       \<and> p_abortSignal (params call) = abortSignal
       \<and> (site = FinalIteration \<longrightarrow>
            params call = fullParams S (p_messages (params call)) abortSignal)
       \<and> (\<forall>call' x'. GenerateTextCall call' x' \<in> set (trace s) \<longrightarrow>
            params call' = fullParams S (p_messages (params call')) abortSignal)"
proof -
  from stream_done [OF run] have wf: "wfTrace S prompt abortSignal (trace s)"
    by (simp add: streamDone_def)
  from ev obtain pre post where tr: "trace s = pre @ StreamTextCall site call x # post"
    by (auto dest: split_list)
  from wf have ok: "okEvent S prompt abortSignal pre (StreamTextCall site call x)"
    unfolding tr by (rule wfTrace_event)
  have blocking: "params call' = fullParams S (p_messages (params call')) abortSignal"
    if g: "GenerateTextCall call' x' \<in> set (trace s)" for call' x'
  proof -
    from g obtain pre' post' where tr': "trace s = pre' @ GenerateTextCall call' x' # post'"
      by (auto dest: split_list)
    from wf have "okEvent S prompt abortSignal pre' (GenerateTextCall call' x')"
      unfolding tr' by (rule wfTrace_event)
    then show ?thesis
      by (simp add: expectedIterationCall_def fullParams_def)
  qed
  show ?thesis
  proof (cases site)
    case EarlyCompletion
    with ok have "call = expectedEarlyCall S prompt abortSignal pre" by simp
    with EarlyCompletion blocking show ?thesis
      by (simp add: expectedEarlyCall_def earlyParams_def)
  next
    case FinalIteration
    with ok have "call = expectedIterationCall S prompt abortSignal pre" by simp
    with FinalIteration blocking show ?thesis
      by (simp add: expectedIterationCall_def fullParams_def)
  qed
qed

theorem streaming_call_inputs_witness:
  "\<exists>s out call x.
     stream (testEnvironment (\<lambda>w. False)) (testSettings 4 (Some (verifyFrom 2)))
       ''Summarize X'' None 0 = (s, out)
     \<and> StreamTextCall EarlyCompletion call x \<in> set (trace s)
     \<and> p_stopWhen (params call) = Some (StepCountIs 20)
     \<and> p_model (params call) = ''test-model''"
proof -
  let ?E = "testEnvironment (\<lambda>w. False)" and ?S = "testSettings 4 (Some (verifyFrom 2))"
  obtain s out where run: "stream ?E ?S ''Summarize X'' None 0 = (s, out)"
    by (cases "stream ?E ?S ''Summarize X'' None 0")
  have "\<exists>call x. last (trace s) = StreamTextCall EarlyCompletion call x \<and> trace s \<noteq> []"
    using run by (auto simp: run_defs)
  then obtain call x where l: "last (trace s) = StreamTextCall EarlyCompletion call x"
    and ne: "trace s \<noteq> []"
    by (elim exE conjE)
  from last_in_set [OF ne] have ev: "StreamTextCall EarlyCompletion call x \<in> set (trace s)"
    unfolding l .
  have S: "toolStopWhen ?S = None" "model ?S = ''test-model''"
    by (simp_all add: testSettings_def)
  from streaming_call_inputs [OF run ev] S
  have "p_stopWhen (params call) = Some (StepCountIs 20)" "p_model (params call) = ''test-model''"
    by simp_all
  with run ev show ?thesis by (intro exI conjI)
qed

text \<open>
  C10.  \<^verbatim>\<open>stream()\<close> has no aborted terminal state.  If the invocation reaches the head of
  its loop with the abort signal set (before any blocking iteration, or between iterations),
  all that follows is one streaming engine call, built for the next iteration from the
  locals at that point; its handle is returned (or its exception propagates).  With the
  signal set from the start, no blocking call is made, and the message list of the
  streaming call is the system messages and the original prompt only: no continuation
  directive, no feedback and no conversation messages.
\<close>

theorem stream_has_no_aborted_state:
  "((streamStep env S prompt abortSignal)\<^sup>*\<^sup>* (streamInit w) s \<and>
    isAborted env abortSignal (world s) \<longrightarrow>
      stream env S prompt abortSignal w =
        (case streamText env (params (nextCall S prompt abortSignal s)) (world s) of
           (x, w') \<Rightarrow>
             (s\<lparr>iteration := iteration s + 1,
                trace := trace s @
                  [StreamTextCall FinalIteration (nextCall S prompt abortSignal s) x],
                world := w'\<rparr>,
              case x of Inl e \<Rightarrow> Threw e | Inr h \<Rightarrow> Returned h)))
   \<and> (isAborted env abortSignal w \<longrightarrow>
      stream env S prompt abortSignal w =
        (case streamText env
                (fullParams S (buildSystemMessages S @ [initialUserMessage prompt]) abortSignal) w of
           (x, w') \<Rightarrow>
             (\<lparr>allResults = [], currentMessages = [], iteration = 1,
               trace = [StreamTextCall FinalIteration
                 \<lparr>at_iteration = 1, conversation = [],
                  params = fullParams S (buildSystemMessages S @ [initialUserMessage prompt])
                    abortSignal\<rparr> x],
               world = w'\<rparr>,
              case x of Inl e \<Rightarrow> Threw e | Inr h \<Rightarrow> Returned h)))"
proof (rule conjI)
  show "(streamStep env S prompt abortSignal)\<^sup>*\<^sup>* (streamInit w) s \<and>
    isAborted env abortSignal (world s) \<longrightarrow>
      stream env S prompt abortSignal w =
        (case streamText env (params (nextCall S prompt abortSignal s)) (world s) of
           (x, w') \<Rightarrow>
             (s\<lparr>iteration := iteration s + 1,
                trace := trace s @
                  [StreamTextCall FinalIteration (nextCall S prompt abortSignal s) x],
                world := w'\<rparr>,
              case x of Inl e \<Rightarrow> Threw e | Inr h \<Rightarrow> Returned h))"
  proof (rule impI)
    assume a: "(streamStep env S prompt abortSignal)\<^sup>*\<^sup>* (streamInit w) s \<and>
      isAborted env abortSignal (world s)"
    from a have "stream env S prompt abortSignal w = streamFrom env S prompt abortSignal s"
      unfolding stream_def by (intro streamFrom_steps) (rule conjunct1)
    also from a have "\<dots> =
        (case streamText env (params (nextCall S prompt abortSignal s)) (world s) of
           (x, w') \<Rightarrow>
             (s\<lparr>iteration := iteration s + 1,
                trace := trace s @
                  [StreamTextCall FinalIteration (nextCall S prompt abortSignal s) x],
                world := w'\<rparr>,
              case x of Inl e \<Rightarrow> Threw e | Inr h \<Rightarrow> Returned h))"
      by (intro streamFrom_aborted) (rule conjunct2)
    finally show "stream env S prompt abortSignal w =
        (case streamText env (params (nextCall S prompt abortSignal s)) (world s) of
           (x, w') \<Rightarrow>
             (s\<lparr>iteration := iteration s + 1,
                trace := trace s @
                  [StreamTextCall FinalIteration (nextCall S prompt abortSignal s) x],
                world := w'\<rparr>,
              case x of Inl e \<Rightarrow> Threw e | Inr h \<Rightarrow> Returned h))" .
  qed
next
  show "isAborted env abortSignal w \<longrightarrow>
      stream env S prompt abortSignal w =
        (case streamText env
                (fullParams S (buildSystemMessages S @ [initialUserMessage prompt]) abortSignal) w of
           (x, w') \<Rightarrow>
             (\<lparr>allResults = [], currentMessages = [], iteration = 1,
               trace = [StreamTextCall FinalIteration
                 \<lparr>at_iteration = 1, conversation = [],
                  params = fullParams S (buildSystemMessages S @ [initialUserMessage prompt])
                    abortSignal\<rparr> x],
               world = w'\<rparr>,
              case x of Inl e \<Rightarrow> Threw e | Inr h \<Rightarrow> Returned h))"
  proof (rule impI)
    assume "isAborted env abortSignal w"
    then have ab: "isAborted env abortSignal (world (streamInit w))"
      by (simp add: streamInit_def)
    have call: "nextCall S prompt abortSignal (streamInit w) =
        \<lparr>at_iteration = 1, conversation = [],
         params = fullParams S (buildSystemMessages S @ [initialUserMessage prompt]) abortSignal\<rparr>"
      by (simp add: nextCall_def iterationCall_def iterationMessages_def streamInit_def Let_def)
    show "stream env S prompt abortSignal w =
        (case streamText env
                (fullParams S (buildSystemMessages S @ [initialUserMessage prompt]) abortSignal) w of
           (x, w') \<Rightarrow>
             (\<lparr>allResults = [], currentMessages = [], iteration = 1,
               trace = [StreamTextCall FinalIteration
                 \<lparr>at_iteration = 1, conversation = [],
                  params = fullParams S (buildSystemMessages S @ [initialUserMessage prompt])
                    abortSignal\<rparr> x],
               world = w'\<rparr>,
              case x of Inl e \<Rightarrow> Threw e | Inr h \<Rightarrow> Returned h))"
      unfolding stream_def streamFrom_aborted [OF ab] call
      by (simp add: streamInit_def split: prod.splits)
  qed
qed

theorem stream_has_no_aborted_state_witness:
  "(\<exists>s. stream (testEnvironment (\<lambda>w. 2 \<le> w)) (testSettings 5 None) ''Summarize X'' (Some 0) 0
          = (s, Returned (StreamHandle 2))
      \<and> length (blockingCalls (trace s)) = 2 \<and> iteration s = 3)
   \<and> (\<exists>s. stream (testEnvironment (\<lambda>w. True)) (testSettings 5 None) ''Summarize X'' (Some 0) 0
          = (s, Returned (StreamHandle 0))
      \<and> length (trace s) = 1 \<and> iteration s = 1)"
proof (rule conjI)
  let ?E = "testEnvironment (\<lambda>w. 2 \<le> w)" and ?S = "testSettings 5 None"
  obtain s1 c1 where b1: "streamBody ?E ?S ''Summarize X'' (Some 0) (streamInit 0) = (s1, c1)"
    by (cases "streamBody ?E ?S ''Summarize X'' (Some 0) (streamInit 0)")
  obtain s2 c2 where b2: "streamBody ?E ?S ''Summarize X'' (Some 0) s1 = (s2, c2)"
    by (cases "streamBody ?E ?S ''Summarize X'' (Some 0) s1")
  have c1: "c1 = Next" and i1: "iteration s1 = 1" using b1 by (auto simp: run_defs)
  have c2: "c2 = Next" and w2: "world s2 = 2" and i2: "iteration s2 = 2"
    and n2: "length (blockingCalls (trace s2)) = 2"
    using b1 b2 by (auto simp: run_defs)
  have n: "maxIterations ?S = 5" by (simp add: maxIterations_def testSettings_def)
  have st1: "streamStep ?E ?S ''Summarize X'' (Some 0) (streamInit 0) s1"
    using b1 c1 n by (simp add: streamStep_def streamInit_def)
  have st2: "streamStep ?E ?S ''Summarize X'' (Some 0) s1 s2"
    using b2 c2 n i1 by (simp add: streamStep_def)
  from st1 st2 have reach: "(streamStep ?E ?S ''Summarize X'' (Some 0))\<^sup>*\<^sup>* (streamInit 0) s2"
    by (rule converse_rtranclp_into_rtranclp [OF _ r_into_rtranclp])
  have ab: "isAborted ?E (Some 0) (world s2)"
    using w2 by (simp add: isAborted_def testEnvironment_def)
  note inst = stream_has_no_aborted_state
    [of ?E ?S "''Summarize X''" "Some 0" 0 s2, THEN conjunct1, THEN mp, OF conjI [OF reach ab]]
  have "stream ?E ?S ''Summarize X'' (Some 0) 0 =
      (s2\<lparr>iteration := 3,
          trace := trace s2 @
            [StreamTextCall FinalIteration (nextCall ?S ''Summarize X'' (Some 0) s2)
               (Inr (StreamHandle 2))],
          world := 3\<rparr>, Returned (StreamHandle 2))"
    unfolding inst using w2 i2 by (simp add: testEnvironment_def)
  with n2 show "\<exists>s. stream ?E ?S ''Summarize X'' (Some 0) 0 = (s, Returned (StreamHandle 2))
      \<and> length (blockingCalls (trace s)) = 2 \<and> iteration s = 3"
    by simp
next
  let ?E = "testEnvironment (\<lambda>w. True)" and ?S = "testSettings 5 None"
  have ab: "isAborted ?E (Some 0) 0" by (simp add: isAborted_def testEnvironment_def)
  note inst = stream_has_no_aborted_state
    [of ?E ?S "''Summarize X''" "Some 0" 0, THEN conjunct2, THEN mp, OF ab]
  show "\<exists>s. stream ?E ?S ''Summarize X'' (Some 0) 0 = (s, Returned (StreamHandle 0))
      \<and> length (trace s) = 1 \<and> iteration s = 1"
    unfolding inst by (simp add: testEnvironment_def)
qed

end
